theory Spec2Isabelle
  imports Main
begin

section \<open>The parsed document\<close>

text \<open>
  The tree that libxml2 hands to \<^verbatim>\<open>xml.c\<close>. A property (\<^verbatim>\<open>xmlAttr\<close>) has a name and
  a pointer \<^verbatim>\<open>children\<close> to its value node; \<open>attr_children = None\<close> is the null pointer,
  \<open>Some c\<close> a value node whose \<^verbatim>\<open>content\<close> is \<open>c\<close>. A node has a name, its properties
  in order (the \<^verbatim>\<open>next\<close> chain of \<^verbatim>\<open>n->properties\<close>) and its children in order (the
  \<^verbatim>\<open>next\<close> chain of \<^verbatim>\<open>n->children\<close>). The lists may hold the same property name twice.
\<close>

datatype xmlAttr = XmlAttr (attr_name: string) (attr_children: "string option")

datatype xmlNode =
  XmlNode (node_name: string) (properties: "xmlAttr list") (children: "xmlNode list")

datatype xmlDoc = XmlDoc (xmlDocGetRootElement: xmlNode)

datatype xmlParserOption = XML_PARSE_DTDVALID

section \<open>The object graph\<close>

text \<open>
  The structs of \<^verbatim>\<open>iio-private.h\<close>, with the fields \<^verbatim>\<open>xml.c\<close> touches. A pointer to
  an object is an address; a nullable pointer field is an \<open>option\<close>. An array with its
  element count (\<^verbatim>\<open>attrs\<close>/\<^verbatim>\<open>nb_attrs\<close>, \<^verbatim>\<open>channels\<close>/\<^verbatim>\<open>nb_channels\<close>,
  \<^verbatim>\<open>devices\<close>/\<^verbatim>\<open>nb_devices\<close>) is a list; a string owned by the object is its value.
\<close>

type_synonym addr = nat

record iio_channel =
  chn_dev :: "addr option"
  chn_name :: "string option"
  chn_id :: "string option"
  is_output :: bool
  chn_attrs :: "string list"

record iio_device =
  dev_ctx :: "addr option"
  dev_name :: "string option"
  dev_id :: "string option"
  dev_attrs :: "string list"
  dev_channels :: "addr list"

datatype iio_backend_ops = Xml_ops

record iio_context =
  ctx_name :: "string option"
  ctx_ops :: "iio_backend_ops option"
  ctx_devices :: "addr list"

section \<open>Machine state\<close>

text \<open>
  What a call can observe or change: the three typed heaps, the next address the allocator
  hands out, the outcomes of the allocations still to come (\<open>allocs\<close>: the head decides
  the next \<^verbatim>\<open>calloc\<close>, \<^verbatim>\<open>strdup\<close> or \<^verbatim>\<open>realloc\<close>; the empty list means every
  allocation succeeds from now on), and the trace of log lines and parser calls.
\<close>

datatype event =
  WARNING string "string option list"
  | ERROR string "string option list"
  | XmlFreeDoc xmlDoc
  | XmlCleanupParser

record state =
  chns :: "addr \<rightharpoonup> iio_channel"
  devs :: "addr \<rightharpoonup> iio_device"
  ctxs :: "addr \<rightharpoonup> iio_context"
  brk :: addr
  allocs :: "bool list"
  trace :: "event list"

text \<open>
  Undefined behaviour of the C program is a value: \<open>NullDeref\<close> is the read of
  \<^verbatim>\<open>attr->children->content\<close> through a null \<^verbatim>\<open>children\<close>, \<open>BadPointer\<close> the access to
  an object that is not (or no longer) allocated.
\<close>

datatype fault = NullDeref | BadPointer

definition emit :: "event \<Rightarrow> state \<Rightarrow> state" where
  "emit e s = s\<lparr>trace := trace s @ [e]\<rparr>"

definition alloc_ok :: "state \<Rightarrow> bool \<times> state" where
  "alloc_ok s = (case allocs s of [] \<Rightarrow> (True, s) | b # bs \<Rightarrow> (b, s\<lparr>allocs := bs\<rparr>))"

definition strdup :: "string \<Rightarrow> state \<Rightarrow> string option \<times> state" where
  "strdup str s = (case alloc_ok s of (ok, s') \<Rightarrow> (if ok then Some str else None, s'))"

definition zero_channel :: iio_channel where
  "zero_channel = \<lparr>chn_dev = None, chn_name = None, chn_id = None, is_output = False,
     chn_attrs = []\<rparr>"

definition zero_device :: iio_device where
  "zero_device = \<lparr>dev_ctx = None, dev_name = None, dev_id = None, dev_attrs = [],
     dev_channels = []\<rparr>"

definition zero_context :: iio_context where
  "zero_context = \<lparr>ctx_name = None, ctx_ops = None, ctx_devices = []\<rparr>"

definition calloc_channel :: "state \<Rightarrow> addr option \<times> state" where
  "calloc_channel s = (case alloc_ok s of (ok, s') \<Rightarrow>
     if ok then (Some (brk s'), s'\<lparr>chns := (chns s')(brk s' \<mapsto> zero_channel), brk := Suc (brk s')\<rparr>)
     else (None, s'))"

definition calloc_device :: "state \<Rightarrow> addr option \<times> state" where
  "calloc_device s = (case alloc_ok s of (ok, s') \<Rightarrow>
     if ok then (Some (brk s'), s'\<lparr>devs := (devs s')(brk s' \<mapsto> zero_device), brk := Suc (brk s')\<rparr>)
     else (None, s'))"

definition calloc_context :: "state \<Rightarrow> addr option \<times> state" where
  "calloc_context s = (case alloc_ok s of (ok, s') \<Rightarrow>
     if ok then (Some (brk s'), s'\<lparr>ctxs := (ctxs s')(brk s' \<mapsto> zero_context), brk := Suc (brk s')\<rparr>)
     else (None, s'))"

text \<open>\<^verbatim>\<open>free\<close> of the object alone, as at lines 180, 243 and 259.\<close>

definition free_chn :: "addr \<Rightarrow> state \<Rightarrow> state" where
  "free_chn chn s = s\<lparr>chns := (chns s)(chn := None)\<rparr>"

definition free_dev :: "addr \<Rightarrow> state \<Rightarrow> state" where
  "free_dev dev s = s\<lparr>devs := (devs s)(dev := None)\<rparr>"

definition free_ctx :: "addr \<Rightarrow> state \<Rightarrow> state" where
  "free_ctx ctx s = s\<lparr>ctxs := (ctxs s)(ctx := None)\<rparr>"

text \<open>
  Modelled from the spec: \<^verbatim>\<open>free_channel\<close> and \<^verbatim>\<open>free_device\<close> are declared in
  \<^verbatim>\<open>iio-private.h\<close> and defined outside \<^verbatim>\<open>xml.c\<close>. The spec: entities are destroyed
  together, top-down, a Device destroys its Channels, and each parent exclusively owns its
  children. So \<open>free_channel\<close> releases the channel with the names it owns, and
  \<open>free_device\<close> releases every channel of the device's list, then the device.
\<close>

definition free_channel :: "addr \<Rightarrow> state \<Rightarrow> fault + state" where
  "free_channel chn s =
     (case chns s chn of None \<Rightarrow> Inl BadPointer | Some c \<Rightarrow> Inr (free_chn chn s))"

fun free_channels :: "addr list \<Rightarrow> state \<Rightarrow> fault + state" where
  "free_channels [] s = Inr s"
| "free_channels (chn # rest) s =
     (case free_channel chn s of Inl f \<Rightarrow> Inl f | Inr s' \<Rightarrow> free_channels rest s')"

definition free_device :: "addr \<Rightarrow> state \<Rightarrow> fault + state" where
  "free_device dev s =
     (case devs s dev of None \<Rightarrow> Inl BadPointer
      | Some d \<Rightarrow>
          (case free_channels (dev_channels d) s of Inl f \<Rightarrow> Inl f
           | Inr s' \<Rightarrow> Inr (free_dev dev s')))"

fun free_devices :: "addr list \<Rightarrow> state \<Rightarrow> fault + state" where
  "free_devices [] s = Inr s"
| "free_devices (dev # rest) s =
     (case free_device dev s of Inl f \<Rightarrow> Inl f | Inr s' \<Rightarrow> free_devices rest s')"

section \<open>The attribute collector\<close>

text \<open>The property scan of \<^verbatim>\<open>add_attr_to_channel\<close> (lines 31-38), \<open>name\<close> the local.\<close>

fun add_attr_to_channel_props ::
  "addr \<Rightarrow> xmlAttr list \<Rightarrow> string option \<Rightarrow> state \<Rightarrow> fault + (string option \<times> state)" where
  "add_attr_to_channel_props chn [] name s = Inr (name, s)"
| "add_attr_to_channel_props chn (attr # rest) name s =
     (if attr_name attr = ''name'' then
        (case attr_children attr of None \<Rightarrow> Inl NullDeref
         | Some content \<Rightarrow>
             (case strdup content s of (name', s') \<Rightarrow>
                add_attr_to_channel_props chn rest name' s'))
      else
        (case chns s chn of None \<Rightarrow> Inl BadPointer
         | Some c \<Rightarrow>
             add_attr_to_channel_props chn rest name
               (emit (WARNING ''Unknown field '%s' in channel %s''
                        [Some (attr_name attr), chn_id c]) s)))"

definition add_attr_to_channel :: "addr \<Rightarrow> xmlNode \<Rightarrow> state \<Rightarrow> fault + (int \<times> state)" where
  "add_attr_to_channel chn n s =
     (case add_attr_to_channel_props chn (properties n) None s of Inl f \<Rightarrow> Inl f
      | Inr (name, s1) \<Rightarrow>
          (case chns s1 chn of None \<Rightarrow> Inl BadPointer
           | Some c \<Rightarrow>
               (case name of
                  None \<Rightarrow> Inr (- 1, emit (ERROR ''Incomplete attribute in channel %s'' [chn_id c]) s1)
                | Some nm \<Rightarrow>
                    (case alloc_ok s1 of (ok, s2) \<Rightarrow>
                       if \<not> ok then Inr (- 1, s2)
                       else Inr (0, s2\<lparr>chns := (chns s2)(chn \<mapsto> c\<lparr>chn_attrs := chn_attrs c @ [nm]\<rparr>)\<rparr>)))))"

text \<open>The property scan of \<^verbatim>\<open>add_attr_to_device\<close> (lines 64-71).\<close>

fun add_attr_to_device_props ::
  "addr \<Rightarrow> xmlAttr list \<Rightarrow> string option \<Rightarrow> state \<Rightarrow> fault + (string option \<times> state)" where
  "add_attr_to_device_props dev [] name s = Inr (name, s)"
| "add_attr_to_device_props dev (attr # rest) name s =
     (if attr_name attr = ''name'' then
        (case attr_children attr of None \<Rightarrow> Inl NullDeref
         | Some content \<Rightarrow>
             (case strdup content s of (name', s') \<Rightarrow>
                add_attr_to_device_props dev rest name' s'))
      else
        (case devs s dev of None \<Rightarrow> Inl BadPointer
         | Some d \<Rightarrow>
             add_attr_to_device_props dev rest name
               (emit (WARNING ''Unknown field '%s' in device %s''
                        [Some (attr_name attr), dev_id d]) s)))"

definition add_attr_to_device :: "addr \<Rightarrow> xmlNode \<Rightarrow> state \<Rightarrow> fault + (int \<times> state)" where
  "add_attr_to_device dev n s =
     (case add_attr_to_device_props dev (properties n) None s of Inl f \<Rightarrow> Inl f
      | Inr (name, s1) \<Rightarrow>
          (case devs s1 dev of None \<Rightarrow> Inl BadPointer
           | Some d \<Rightarrow>
               (case name of
                  None \<Rightarrow> Inr (- 1, emit (ERROR ''Incomplete attribute in device %s'' [dev_id d]) s1)
                | Some nm \<Rightarrow>
                    (case alloc_ok s1 of (ok, s2) \<Rightarrow>
                       if \<not> ok then Inr (- 1, s2)
                       else Inr (0, s2\<lparr>devs := (devs s2)(dev \<mapsto> d\<lparr>dev_attrs := dev_attrs d @ [nm]\<rparr>)\<rparr>)))))"

section \<open>The channel builder\<close>

text \<open>
  The property scan of \<^verbatim>\<open>create_channel\<close> (lines 101-117). The initialiser of
  \<^verbatim>\<open>content\<close> at line 103 reads the value node of every property, before the name is
  looked at.
\<close>

fun create_channel_props :: "addr \<Rightarrow> xmlAttr list \<Rightarrow> state \<Rightarrow> fault + state" where
  "create_channel_props chn [] s = Inr s"
| "create_channel_props chn (attr # rest) s =
     (case attr_children attr of None \<Rightarrow> Inl NullDeref
      | Some content \<Rightarrow>
          (case chns s chn of None \<Rightarrow> Inl BadPointer
           | Some c \<Rightarrow>
               if attr_name attr = ''name'' then
                 (case strdup content s of (p, s') \<Rightarrow>
                    create_channel_props chn rest (s'\<lparr>chns := (chns s')(chn \<mapsto> c\<lparr>chn_name := p\<rparr>)\<rparr>))
               else if attr_name attr = ''id'' then
                 (case strdup content s of (p, s') \<Rightarrow>
                    create_channel_props chn rest (s'\<lparr>chns := (chns s')(chn \<mapsto> c\<lparr>chn_id := p\<rparr>)\<rparr>))
               else if attr_name attr = ''type'' then
                 (if content = ''output'' then
                    create_channel_props chn rest (s\<lparr>chns := (chns s)(chn \<mapsto> c\<lparr>is_output := True\<rparr>)\<rparr>)
                  else if content \<noteq> ''input'' then
                    create_channel_props chn rest
                      (emit (WARNING ''Unknown channel type %s'' [Some content]) s)
                  else create_channel_props chn rest s)
               else
                 create_channel_props chn rest
                   (emit (WARNING ''Unknown attribute '%s' in <channel>'' [Some (attr_name attr)]) s)))"

text \<open>
  The child loop of \<^verbatim>\<open>create_channel\<close> (lines 124-133); \<open>False\<close> is the jump to
  \<^verbatim>\<open>err_free_channel\<close>.
\<close>

fun create_channel_children :: "addr \<Rightarrow> xmlNode list \<Rightarrow> state \<Rightarrow> fault + (bool \<times> state)" where
  "create_channel_children chn [] s = Inr (True, s)"
| "create_channel_children chn (n # rest) s =
     (if node_name n = ''attribute'' then
        (case add_attr_to_channel chn n s of Inl f \<Rightarrow> Inl f
         | Inr (r, s') \<Rightarrow>
             if r < 0 then Inr (False, s') else create_channel_children chn rest s')
      else if node_name n \<noteq> ''text'' then
        create_channel_children chn rest
          (emit (WARNING ''Unknown children '%s' in <device>'' [Some (node_name n)]) s)
      else create_channel_children chn rest s)"

definition err_free_channel :: "addr \<Rightarrow> state \<Rightarrow> fault + (addr option \<times> state)" where
  "err_free_channel chn s =
     (case free_channel chn s of Inl f \<Rightarrow> Inl f | Inr s' \<Rightarrow> Inr (None, s'))"

definition create_channel :: "addr \<Rightarrow> xmlNode \<Rightarrow> state \<Rightarrow> fault + (addr option \<times> state)" where
  "create_channel dev n s =
     (case calloc_channel s of
        (None, s0) \<Rightarrow> Inr (None, s0)
      | (Some chn, s0) \<Rightarrow>
          (case chns s0 chn of None \<Rightarrow> Inl BadPointer
           | Some c0 \<Rightarrow>
               (case create_channel_props chn (properties n)
                       (s0\<lparr>chns := (chns s0)(chn \<mapsto> c0\<lparr>chn_dev := Some dev\<rparr>)\<rparr>) of
                  Inl f \<Rightarrow> Inl f
                | Inr s1 \<Rightarrow>
                    (case chns s1 chn of None \<Rightarrow> Inl BadPointer
                     | Some c1 \<Rightarrow>
                         if chn_id c1 = None then
                           err_free_channel chn (emit (ERROR ''Incomplete <attribute>'' []) s1)
                         else
                           (case create_channel_children chn (children n) s1 of Inl f \<Rightarrow> Inl f
                            | Inr (ok, s2) \<Rightarrow>
                                if ok then Inr (Some chn, s2) else err_free_channel chn s2)))))"

section \<open>The device builder\<close>

text \<open>The property scan of \<^verbatim>\<open>create_device\<close> (lines 151-160).\<close>

fun create_device_props :: "addr \<Rightarrow> xmlAttr list \<Rightarrow> state \<Rightarrow> fault + state" where
  "create_device_props dev [] s = Inr s"
| "create_device_props dev (attr # rest) s =
     (if attr_name attr = ''name'' then
        (case attr_children attr of None \<Rightarrow> Inl NullDeref
         | Some content \<Rightarrow>
             (case devs s dev of None \<Rightarrow> Inl BadPointer
              | Some d \<Rightarrow>
                  (case strdup content s of (p, s') \<Rightarrow>
                     create_device_props dev rest
                       (s'\<lparr>devs := (devs s')(dev \<mapsto> d\<lparr>dev_name := p\<rparr>)\<rparr>))))
      else if attr_name attr = ''id'' then
        (case attr_children attr of None \<Rightarrow> Inl NullDeref
         | Some content \<Rightarrow>
             (case devs s dev of None \<Rightarrow> Inl BadPointer
              | Some d \<Rightarrow>
                  (case strdup content s of (p, s') \<Rightarrow>
                     create_device_props dev rest
                       (s'\<lparr>devs := (devs s')(dev \<mapsto> d\<lparr>dev_id := p\<rparr>)\<rparr>))))
      else
        create_device_props dev rest
          (emit (WARNING ''Unknown attribute '%s' in <context>'' [Some (attr_name attr)]) s))"

text \<open>
  The child loop of \<^verbatim>\<open>create_device\<close> (lines 167-194); \<open>False\<close> is the jump to
  \<^verbatim>\<open>err_free_device\<close>.
\<close>

fun create_device_children :: "addr \<Rightarrow> xmlNode list \<Rightarrow> state \<Rightarrow> fault + (bool \<times> state)" where
  "create_device_children dev [] s = Inr (True, s)"
| "create_device_children dev (n # rest) s =
     (if node_name n = ''channel'' then
        (case create_channel dev n s of Inl f \<Rightarrow> Inl f
         | Inr (None, s1) \<Rightarrow> Inr (False, emit (ERROR ''Unable to create channel'' []) s1)
         | Inr (Some chn, s1) \<Rightarrow>
             (case devs s1 dev of None \<Rightarrow> Inl BadPointer
              | Some d \<Rightarrow>
                  (case alloc_ok s1 of (ok, s2) \<Rightarrow>
                     if \<not> ok then
                       Inr (False, free_chn chn (emit (ERROR ''Unable to allocate memory'' []) s2))
                     else
                       create_device_children dev rest
                         (s2\<lparr>devs := (devs s2)(dev \<mapsto> d\<lparr>dev_channels := dev_channels d @ [chn]\<rparr>)\<rparr>))))
      else if node_name n = ''attribute'' then
        (case add_attr_to_device dev n s of Inl f \<Rightarrow> Inl f
         | Inr (r, s') \<Rightarrow>
             if r < 0 then Inr (False, s') else create_device_children dev rest s')
      else if node_name n \<noteq> ''text'' then
        create_device_children dev rest
          (emit (WARNING ''Unknown children '%s' in <device>'' [Some (node_name n)]) s)
      else create_device_children dev rest s)"

definition err_free_device :: "addr \<Rightarrow> state \<Rightarrow> fault + (addr option \<times> state)" where
  "err_free_device dev s =
     (case free_device dev s of Inl f \<Rightarrow> Inl f | Inr s' \<Rightarrow> Inr (None, s'))"

definition create_device :: "addr \<Rightarrow> xmlNode \<Rightarrow> state \<Rightarrow> fault + (addr option \<times> state)" where
  "create_device ctx n s =
     (case calloc_device s of
        (None, s0) \<Rightarrow> Inr (None, s0)
      | (Some dev, s0) \<Rightarrow>
          (case devs s0 dev of None \<Rightarrow> Inl BadPointer
           | Some d0 \<Rightarrow>
               (case create_device_props dev (properties n)
                       (s0\<lparr>devs := (devs s0)(dev \<mapsto> d0\<lparr>dev_ctx := Some ctx\<rparr>)\<rparr>) of
                  Inl f \<Rightarrow> Inl f
                | Inr s1 \<Rightarrow>
                    (case devs s1 dev of None \<Rightarrow> Inl BadPointer
                     | Some d1 \<Rightarrow>
                         if dev_id d1 = None then
                           err_free_device dev (emit (ERROR ''Unable to read device ID'' []) s1)
                         else
                           (case create_device_children dev (children n) s1 of Inl f \<Rightarrow> Inl f
                            | Inr (ok, s2) \<Rightarrow>
                                if ok then Inr (Some dev, s2) else err_free_device dev s2)))))"

section \<open>The context builder and the entry points\<close>

text \<open>
  The child loop of \<^verbatim>\<open>iio_create_xml_context_helper\<close> (lines 223-249); \<open>False\<close> is
  the jump to \<^verbatim>\<open>err_free_devices\<close>.
\<close>

fun helper_children :: "addr \<Rightarrow> xmlNode list \<Rightarrow> state \<Rightarrow> fault + (bool \<times> state)" where
  "helper_children ctx [] s = Inr (True, s)"
| "helper_children ctx (n # rest) s =
     (if node_name n \<noteq> ''device'' then
        (if node_name n \<noteq> ''text'' then
           helper_children ctx rest
             (emit (WARNING ''Unknown children '%s' in <context>'' [Some (node_name n)]) s)
         else helper_children ctx rest s)
      else
        (case create_device ctx n s of Inl f \<Rightarrow> Inl f
         | Inr (None, s1) \<Rightarrow> Inr (False, emit (ERROR ''Unable to create device'' []) s1)
         | Inr (Some dev, s1) \<Rightarrow>
             (case ctxs s1 ctx of None \<Rightarrow> Inl BadPointer
              | Some c \<Rightarrow>
                  (case alloc_ok s1 of (ok, s2) \<Rightarrow>
                     if \<not> ok then
                       Inr (False, free_dev dev (emit (ERROR ''Unable to allocate memory'' []) s2))
                     else
                       helper_children ctx rest
                         (s2\<lparr>ctxs := (ctxs s2)(ctx \<mapsto> c\<lparr>ctx_devices := ctx_devices c @ [dev]\<rparr>)\<rparr>)))))"

definition err_free_devices :: "addr \<Rightarrow> state \<Rightarrow> fault + (addr option \<times> state)" where
  "err_free_devices ctx s =
     (case ctxs s ctx of None \<Rightarrow> Inl BadPointer
      | Some c \<Rightarrow>
          (case free_devices (ctx_devices c) s of Inl f \<Rightarrow> Inl f
           | Inr s' \<Rightarrow> Inr (None, free_ctx ctx s')))"

definition iio_create_xml_context_helper :: "xmlDoc \<Rightarrow> state \<Rightarrow> fault + (addr option \<times> state)" where
  "iio_create_xml_context_helper doc s =
     (case calloc_context s of
        (None, s0) \<Rightarrow> Inr (None, s0)
      | (Some ctx, s0) \<Rightarrow>
          (case ctxs s0 ctx of None \<Rightarrow> Inl BadPointer
           | Some c0 \<Rightarrow>
               (let s1 = s0\<lparr>ctxs := (ctxs s0)(ctx \<mapsto> c0\<lparr>ctx_name := Some ''xml'', ctx_ops := Some Xml_ops\<rparr>)\<rparr>;
                    root = xmlDocGetRootElement doc
                in if node_name root \<noteq> ''context'' then
                     Inr (None, free_ctx ctx (emit (ERROR ''Unrecognized XML file'' []) s1))
                   else
                     (case helper_children ctx (children root) s1 of Inl f \<Rightarrow> Inl f
                      | Inr (ok, s2) \<Rightarrow>
                          if ok then Inr (Some ctx, s2) else err_free_devices ctx s2))))"

text \<open>
  The entry points. The parser is libxml2's: \<open>xmlReadFile\<close> and \<open>xmlReadMemory\<close> are
  parameters, \<open>None\<close> their null result. \<^verbatim>\<open>xmlFreeDoc\<close> and \<^verbatim>\<open>xmlCleanupParser\<close> leave
  an event each in the trace.
\<close>

definition iio_create_xml_context ::
  "(string \<Rightarrow> xmlParserOption list \<Rightarrow> xmlDoc option) \<Rightarrow> string \<Rightarrow> state
     \<Rightarrow> fault + (addr option \<times> state)" where
  "iio_create_xml_context xmlReadFile xml_file s =
     (case xmlReadFile xml_file [XML_PARSE_DTDVALID] of
        None \<Rightarrow> Inr (None, emit (ERROR ''Unable to parse XML file'' []) s)
      | Some doc \<Rightarrow>
          (case iio_create_xml_context_helper doc s of Inl f \<Rightarrow> Inl f
           | Inr (ctx, s1) \<Rightarrow> Inr (ctx, emit XmlCleanupParser (emit (XmlFreeDoc doc) s1))))"

definition iio_create_xml_context_mem ::
  "(string \<Rightarrow> nat \<Rightarrow> xmlParserOption list \<Rightarrow> xmlDoc option) \<Rightarrow> string \<Rightarrow> nat \<Rightarrow> state
     \<Rightarrow> fault + (addr option \<times> state)" where
  "iio_create_xml_context_mem xmlReadMemory xml len s =
     (case xmlReadMemory xml len [XML_PARSE_DTDVALID] of
        None \<Rightarrow> Inr (None, emit (ERROR ''Unable to parse XML file'' []) s)
      | Some doc \<Rightarrow>
          (case iio_create_xml_context_helper doc s of Inl f \<Rightarrow> Inl f
           | Inr (ctx, s1) \<Rightarrow> Inr (ctx, emit XmlCleanupParser (emit (XmlFreeDoc doc) s1))))"

section \<open>Vocabulary of the claims\<close>

text \<open>
  The properties of a node that carry a given name, in order; the value of the last of
  them; whether each property of a list has a value node; the children with a given name.
\<close>

definition props_named :: "string \<Rightarrow> xmlAttr list \<Rightarrow> xmlAttr list" where
  "props_named nm ps = filter (\<lambda>a. attr_name a = nm) ps"

definition last_value :: "string \<Rightarrow> xmlAttr list \<Rightarrow> string option" where
  "last_value nm ps =
     (if props_named nm ps = [] then None else attr_children (last (props_named nm ps)))"

definition valued :: "xmlAttr list \<Rightarrow> bool" where
  "valued ps = list_all (\<lambda>a. attr_children a \<noteq> None) ps"

definition elems :: "string \<Rightarrow> xmlNode list \<Rightarrow> xmlNode list" where
  "elems nm ks = filter (\<lambda>n. node_name n = nm) ks"

text \<open>
  Well-formed documents, after the document format of the spec: the root is
  \<open>context\<close>; a device has an \<open>id\<close>; a channel has an \<open>id\<close>; an attribute has a
  \<open>name\<close>; and the properties the builders read carry a value. Other elements and
  properties may be present.
\<close>

definition wf_attribute :: "xmlNode \<Rightarrow> bool" where
  "wf_attribute n \<longleftrightarrow>
     props_named ''name'' (properties n) \<noteq> [] \<and> valued (props_named ''name'' (properties n))"

definition wf_channel :: "xmlNode \<Rightarrow> bool" where
  "wf_channel n \<longleftrightarrow>
     props_named ''id'' (properties n) \<noteq> [] \<and> valued (properties n) \<and>
     list_all wf_attribute (elems ''attribute'' (children n))"

definition wf_device :: "xmlNode \<Rightarrow> bool" where
  "wf_device n \<longleftrightarrow>
     props_named ''id'' (properties n) \<noteq> [] \<and>
     valued (props_named ''id'' (properties n)) \<and>
     valued (props_named ''name'' (properties n)) \<and>
     list_all wf_channel (elems ''channel'' (children n)) \<and>
     list_all wf_attribute (elems ''attribute'' (children n))"

definition wf_context :: "xmlNode \<Rightarrow> bool" where
  "wf_context root \<longleftrightarrow>
     node_name root = ''context'' \<and> list_all wf_device (elems ''device'' (children root))"

text \<open>Every property of every node of the tree carries a value.\<close>

fun all_valued :: "xmlNode \<Rightarrow> bool" where
  "all_valued (XmlNode nm ps ks) \<longleftrightarrow> valued ps \<and> (\<forall>k \<in> set ks. all_valued k)"

definition is_WARNING :: "event \<Rightarrow> bool" where
  "is_WARNING e = (case e of WARNING fmt args \<Rightarrow> True | _ \<Rightarrow> False)"

definition initial_state :: state where
  "initial_state = \<lparr>chns = Map.empty, devs = Map.empty, ctxs = Map.empty, brk = 0,
     allocs = [], trace = []\<rparr>"

section \<open>What a successful build writes\<close>

text \<open>
  The objects and log lines a build leaves when no allocation fails, as functions of the
  document: the runs of the builders are compared with them below.
\<close>

definition attr_chn_warnings :: "string option \<Rightarrow> xmlAttr list \<Rightarrow> event list" where
  "attr_chn_warnings cid ps =
     map (\<lambda>a. WARNING ''Unknown field '%s' in channel %s'' [Some (attr_name a), cid])
       (filter (\<lambda>a. attr_name a \<noteq> ''name'') ps)"

definition attr_dev_warnings :: "string option \<Rightarrow> xmlAttr list \<Rightarrow> event list" where
  "attr_dev_warnings did ps =
     map (\<lambda>a. WARNING ''Unknown field '%s' in device %s'' [Some (attr_name a), did])
       (filter (\<lambda>a. attr_name a \<noteq> ''name'') ps)"

fun collect_names :: "xmlNode list \<Rightarrow> string list" where
  "collect_names [] = []"
| "collect_names (n # ks) =
     (if node_name n = ''attribute'' then
        (case last_value ''name'' (properties n) of None \<Rightarrow> [] | Some v \<Rightarrow> [v])
          @ collect_names ks
      else collect_names ks)"

fun chan_scan :: "xmlAttr list \<Rightarrow> iio_channel \<Rightarrow> iio_channel" where
  "chan_scan [] c = c"
| "chan_scan (a # ps) c =
     chan_scan ps
       (if attr_name a = ''name'' then c\<lparr>chn_name := attr_children a\<rparr>
        else if attr_name a = ''id'' then c\<lparr>chn_id := attr_children a\<rparr>
        else if attr_name a = ''type'' \<and> attr_children a = Some ''output''
          then c\<lparr>is_output := True\<rparr>
        else c)"

definition chan_props_warnings :: "xmlAttr list \<Rightarrow> event list" where
  "chan_props_warnings ps = concat (map (\<lambda>a.
     if attr_name a = ''name'' \<or> attr_name a = ''id'' then []
     else if attr_name a = ''type'' then
       (if attr_children a = Some ''output'' \<or> attr_children a = Some ''input'' then []
        else [WARNING ''Unknown channel type %s'' [attr_children a]])
     else [WARNING ''Unknown attribute '%s' in <channel>'' [Some (attr_name a)]]) ps)"

definition says_output :: "xmlAttr list \<Rightarrow> bool" where
  "says_output ps \<longleftrightarrow>
     list_ex (\<lambda>a. attr_name a = ''type'' \<and> attr_children a = Some ''output'') ps"

definition chan_children_warnings :: "string option \<Rightarrow> xmlNode list \<Rightarrow> event list" where
  "chan_children_warnings cid ks = concat (map (\<lambda>k.
     if node_name k = ''attribute'' then attr_chn_warnings cid (properties k)
     else if node_name k \<noteq> ''text'' then
       [WARNING ''Unknown children '%s' in <device>'' [Some (node_name k)]]
     else []) ks)"

definition built_channel :: "addr \<Rightarrow> xmlNode \<Rightarrow> iio_channel" where
  "built_channel dev n =
     (chan_scan (properties n) (zero_channel\<lparr>chn_dev := Some dev\<rparr>))
       \<lparr>chn_attrs := collect_names (children n)\<rparr>"

definition channel_warnings :: "xmlNode \<Rightarrow> event list" where
  "channel_warnings n =
     chan_props_warnings (properties n)
       @ chan_children_warnings (last_value ''id'' (properties n)) (children n)"

fun dev_scan :: "xmlAttr list \<Rightarrow> iio_device \<Rightarrow> iio_device" where
  "dev_scan [] d = d"
| "dev_scan (a # ps) d =
     dev_scan ps
       (if attr_name a = ''name'' then d\<lparr>dev_name := attr_children a\<rparr>
        else if attr_name a = ''id'' then d\<lparr>dev_id := attr_children a\<rparr>
        else d)"

definition dev_props_warnings :: "xmlAttr list \<Rightarrow> event list" where
  "dev_props_warnings ps =
     map (\<lambda>a. WARNING ''Unknown attribute '%s' in <context>'' [Some (attr_name a)])
       (filter (\<lambda>a. attr_name a \<noteq> ''name'' \<and> attr_name a \<noteq> ''id'') ps)"

fun put_channels ::
  "addr \<Rightarrow> addr \<Rightarrow> xmlNode list \<Rightarrow> (addr \<rightharpoonup> iio_channel) \<Rightarrow> (addr \<rightharpoonup> iio_channel)" where
  "put_channels dev b [] h = h"
| "put_channels dev b (k # ks) h =
     (if node_name k = ''channel'' then put_channels dev (Suc b) ks (h(b \<mapsto> built_channel dev k))
      else put_channels dev b ks h)"

definition dev_children_warnings :: "string option \<Rightarrow> xmlNode list \<Rightarrow> event list" where
  "dev_children_warnings did ks = concat (map (\<lambda>k.
     if node_name k = ''channel'' then channel_warnings k
     else if node_name k = ''attribute'' then attr_dev_warnings did (properties k)
     else if node_name k \<noteq> ''text'' then
       [WARNING ''Unknown children '%s' in <device>'' [Some (node_name k)]]
     else []) ks)"

definition built_device :: "addr \<Rightarrow> addr \<Rightarrow> xmlNode \<Rightarrow> iio_device" where
  "built_device ctx b n =
     (dev_scan (properties n) (zero_device\<lparr>dev_ctx := Some ctx\<rparr>))
       \<lparr>dev_attrs := collect_names (children n),
        dev_channels := [Suc b ..< Suc b + length (elems ''channel'' (children n))]\<rparr>"

definition device_warnings :: "xmlNode \<Rightarrow> event list" where
  "device_warnings n =
     dev_props_warnings (properties n)
       @ dev_children_warnings (last_value ''id'' (properties n)) (children n)"

text \<open>
  The state after the device \<open>n\<close> has been built at the address \<open>brk s\<close>, its channels
  at the addresses that follow; the trace is left as it is.
\<close>

definition put_device :: "addr \<Rightarrow> xmlNode \<Rightarrow> state \<Rightarrow> state" where
  "put_device ctx n s =
     s\<lparr>chns := put_channels (brk s) (Suc (brk s)) (children n) (chns s),
       devs := (devs s)(brk s \<mapsto> built_device ctx (brk s) n),
       brk := Suc (brk s) + length (elems ''channel'' (children n))\<rparr>"

fun put_devices :: "addr \<Rightarrow> xmlNode list \<Rightarrow> state \<Rightarrow> state" where
  "put_devices ctx [] s = s"
| "put_devices ctx (k # ks) s =
     (if node_name k = ''device'' then put_devices ctx ks (put_device ctx k s)
      else put_devices ctx ks s)"

fun device_addrs :: "addr \<Rightarrow> xmlNode list \<Rightarrow> addr list" where
  "device_addrs b [] = []"
| "device_addrs b (k # ks) =
     (if node_name k = ''device'' then
        b # device_addrs (Suc b + length (elems ''channel'' (children k))) ks
      else device_addrs b ks)"

definition ctx_children_warnings :: "xmlNode list \<Rightarrow> event list" where
  "ctx_children_warnings ks = concat (map (\<lambda>k.
     if node_name k = ''device'' then device_warnings k
     else if node_name k \<noteq> ''text'' then
       [WARNING ''Unknown children '%s' in <context>'' [Some (node_name k)]]
     else []) ks)"

definition put_context :: "xmlNode \<Rightarrow> state \<Rightarrow> state" where
  "put_context root s =
     (put_devices (brk s) (children root) (s\<lparr>brk := Suc (brk s)\<rparr>))
       \<lparr>ctxs := (ctxs s)(brk s \<mapsto>
          \<lparr>ctx_name = Some ''xml'', ctx_ops = Some Xml_ops,
           ctx_devices = device_addrs (Suc (brk s)) (children root)\<rparr>)\<rparr>"

section \<open>Example inputs\<close>

definition owner_channel :: iio_channel where
  "owner_channel =
     zero_channel\<lparr>chn_dev := Some 1, chn_id := Some ''voltage0'', chn_attrs := [''scale'']\<rparr>"

definition owner_device :: iio_device where
  "owner_device =
     zero_device\<lparr>dev_id := Some ''dev0'', dev_attrs := [''scale''], dev_channels := [0]\<rparr>"

definition owner_state :: state where
  "owner_state =
     initial_state\<lparr>chns := [0 \<mapsto> owner_channel], devs := [1 \<mapsto> owner_device], brk := 2\<rparr>"

definition twice_named_attribute :: xmlNode where
  "twice_named_attribute =
     XmlNode ''attribute'' [XmlAttr ''name'' (Some ''scale''), XmlAttr ''name'' (Some ''offset'')] []"

definition twice_named_element :: "string \<Rightarrow> xmlNode" where
  "twice_named_element tag =
     XmlNode tag [XmlAttr ''id'' (Some ''a''), XmlAttr ''name'' (Some ''x''),
       XmlAttr ''id'' (Some ''b''), XmlAttr ''name'' (Some ''y'')] []"

definition wrong_root_doc :: xmlDoc where
  "wrong_root_doc =
     XmlDoc (XmlNode ''Context'' [] [XmlNode ''device'' [XmlAttr ''id'' (Some ''dev0'')] []])"

definition scenario_A :: xmlDoc where
  "scenario_A =
     XmlDoc (XmlNode ''context'' []
       [XmlNode ''device'' [XmlAttr ''id'' (Some ''dev0'')]
          [XmlNode ''channel'' [XmlAttr ''id'' (Some ''voltage0''), XmlAttr ''type'' (Some ''output'')]
             [XmlNode ''attribute'' [XmlAttr ''name'' (Some ''scale'')] []],
           XmlNode ''attribute'' [XmlAttr ''name'' (Some ''calibbias'')] []]])"

text \<open>The log lines of a trace, and what is left when they are taken out: the parser calls.\<close>

definition is_log :: "event \<Rightarrow> bool" where
  "is_log e = (case e of WARNING fmt args \<Rightarrow> True | ERROR fmt args \<Rightarrow> True | _ \<Rightarrow> False)"

definition parser_calls :: "event list \<Rightarrow> event list" where
  "parser_calls tr = filter (\<lambda>e. \<not> is_log e) tr"

definition one_file :: "string \<Rightarrow> xmlParserOption list \<Rightarrow> xmlDoc option" where
  "one_file path opts = (if path = ''iio.xml'' then Some scenario_A else None)"

definition one_buffer :: "string \<Rightarrow> nat \<Rightarrow> xmlParserOption list \<Rightarrow> xmlDoc option" where
  "one_buffer xml len opts = (if 0 < len then Some wrong_root_doc else None)"

text \<open>What a caller sees of a channel build: the direction of the channel, the log.\<close>

definition built_direction :: "fault + (addr option \<times> state) \<Rightarrow> bool option" where
  "built_direction r =
     (case r of Inr (Some chn, s') \<Rightarrow> map_option is_output (chns s' chn) | _ \<Rightarrow> None)"

definition logged :: "fault + (addr option \<times> state) \<Rightarrow> event list" where
  "logged r = (case r of Inr (p, s') \<Rightarrow> trace s' | _ \<Rightarrow> [])"

definition two_types_channel :: xmlNode where
  "two_types_channel =
     XmlNode ''channel'' [XmlAttr ''id'' (Some ''voltage0''), XmlAttr ''type'' (Some ''output''),
       XmlAttr ''type'' (Some ''garbage'')] []"

text \<open>
  Ownership with back-references, as the heap shows it: the channels of a list are
  allocated below \<open>brk\<close> and point back to the device; the devices of a list are
  allocated below \<open>brk\<close>, point back to the context and own their channels so.
\<close>

definition owned_channels :: "state \<Rightarrow> addr \<Rightarrow> addr list \<Rightarrow> bool" where
  "owned_channels s dev cs \<longleftrightarrow>
     (\<forall>chn\<in>set cs. chn < brk s \<and> (\<exists>c. chns s chn = Some c \<and> chn_dev c = Some dev))"

definition owned_devices :: "state \<Rightarrow> addr \<Rightarrow> addr list \<Rightarrow> bool" where
  "owned_devices s ctx ds \<longleftrightarrow>
     (\<forall>dev\<in>set ds. dev < brk s \<and>
        (\<exists>d. devs s dev = Some d \<and> dev_ctx d = Some ctx \<and> owned_channels s dev (dev_channels d)))"

definition scale_attribute :: xmlNode where
  "scale_attribute = XmlNode ''attribute'' [XmlAttr ''name'' (Some ''scale'')] []"

text \<open>
  The built objects against the document: an attribute name against an \<open>attribute\<close>
  node, a channel against a \<open>channel\<close> node, a device against a \<open>device\<close> node, a
  context against the root. \<open>list_all2\<close> pairs the elements of two lists position by
  position and holds only for lists of one length, so it says "as many, in document order".
\<close>

definition attribute_matches :: "string \<Rightarrow> xmlNode \<Rightarrow> bool" where
  "attribute_matches v a \<longleftrightarrow> last_value ''name'' (properties a) = Some v"

definition channel_matches :: "state \<Rightarrow> addr \<Rightarrow> addr \<Rightarrow> xmlNode \<Rightarrow> bool" where
  "channel_matches s dev chn m \<longleftrightarrow>
     (case chns s chn of None \<Rightarrow> False
      | Some c \<Rightarrow>
          chn_dev c = Some dev \<and> chn_id c = last_value ''id'' (properties m) \<and>
          chn_name c = last_value ''name'' (properties m) \<and>
          is_output c = says_output (properties m) \<and>
          list_all2 attribute_matches (chn_attrs c) (elems ''attribute'' (children m)))"

definition device_matches :: "state \<Rightarrow> addr \<Rightarrow> addr \<Rightarrow> xmlNode \<Rightarrow> bool" where
  "device_matches s ctx dev n \<longleftrightarrow>
     (case devs s dev of None \<Rightarrow> False
      | Some d \<Rightarrow>
          dev_ctx d = Some ctx \<and> dev_id d = last_value ''id'' (properties n) \<and>
          dev_name d = last_value ''name'' (properties n) \<and>
          list_all2 attribute_matches (dev_attrs d) (elems ''attribute'' (children n)) \<and>
          list_all2 (channel_matches s dev) (dev_channels d) (elems ''channel'' (children n)))"

definition context_matches :: "state \<Rightarrow> addr \<Rightarrow> xmlNode \<Rightarrow> bool" where
  "context_matches s ctx root \<longleftrightarrow>
     (case ctxs s ctx of None \<Rightarrow> False
      | Some c \<Rightarrow>
          ctx_name c = Some ''xml'' \<and> ctx_ops c = Some Xml_ops \<and>
          list_all2 (device_matches s ctx) (ctx_devices c) (elems ''device'' (children root)))"

text \<open>
  One item that the builders do not recognise, inserted somewhere in a node: a property
  whose name the builder of that node does not look for, a child whose name it does not
  look for, or such an insertion further down, inside a child it does build. Nothing below
  an \<open>attribute\<close> node is looked at, and no property of the root is. A property
  inserted on a \<open>channel\<close> carries a value, since the channel builder reads the value of
  every property.
\<close>

inductive ins_attribute :: "xmlNode \<Rightarrow> xmlNode \<Rightarrow> bool" where
  new_prop: "attr_name a \<noteq> ''name'' \<Longrightarrow>
     ins_attribute (XmlNode nm (ps @ qs) ks) (XmlNode nm (ps @ a # qs) ks)"
| new_child: "ins_attribute (XmlNode nm ps (ks @ ls)) (XmlNode nm ps (ks @ k # ls))"

inductive ins_channel :: "xmlNode \<Rightarrow> xmlNode \<Rightarrow> bool" where
  new_prop: "attr_name a \<noteq> ''name'' \<Longrightarrow> attr_name a \<noteq> ''id'' \<Longrightarrow> attr_name a \<noteq> ''type'' \<Longrightarrow>
     attr_children a \<noteq> None \<Longrightarrow>
     ins_channel (XmlNode nm (ps @ qs) ks) (XmlNode nm (ps @ a # qs) ks)"
| new_child: "node_name k \<noteq> ''attribute'' \<Longrightarrow>
     ins_channel (XmlNode nm ps (ks @ ls)) (XmlNode nm ps (ks @ k # ls))"
| in_attribute: "node_name k = ''attribute'' \<Longrightarrow> ins_attribute k k' \<Longrightarrow>
     ins_channel (XmlNode nm ps (ks @ k # ls)) (XmlNode nm ps (ks @ k' # ls))"

inductive ins_device :: "xmlNode \<Rightarrow> xmlNode \<Rightarrow> bool" where
  new_prop: "attr_name a \<noteq> ''name'' \<Longrightarrow> attr_name a \<noteq> ''id'' \<Longrightarrow>
     ins_device (XmlNode nm (ps @ qs) ks) (XmlNode nm (ps @ a # qs) ks)"
| new_child: "node_name k \<noteq> ''channel'' \<Longrightarrow> node_name k \<noteq> ''attribute'' \<Longrightarrow>
     ins_device (XmlNode nm ps (ks @ ls)) (XmlNode nm ps (ks @ k # ls))"
| in_channel: "node_name k = ''channel'' \<Longrightarrow> ins_channel k k' \<Longrightarrow>
     ins_device (XmlNode nm ps (ks @ k # ls)) (XmlNode nm ps (ks @ k' # ls))"
| in_attribute: "node_name k = ''attribute'' \<Longrightarrow> ins_attribute k k' \<Longrightarrow>
     ins_device (XmlNode nm ps (ks @ k # ls)) (XmlNode nm ps (ks @ k' # ls))"

inductive ins_context :: "xmlNode \<Rightarrow> xmlNode \<Rightarrow> bool" where
  new_prop: "ins_context (XmlNode nm (ps @ qs) ks) (XmlNode nm (ps @ a # qs) ks)"
| new_child: "node_name k \<noteq> ''device'' \<Longrightarrow>
     ins_context (XmlNode nm ps (ks @ ls)) (XmlNode nm ps (ks @ k # ls))"
| in_device: "node_name k = ''device'' \<Longrightarrow> ins_device k k' \<Longrightarrow>
     ins_context (XmlNode nm ps (ks @ k # ls)) (XmlNode nm ps (ks @ k' # ls))"

section \<open>Basic facts\<close>

lemma chns_emit [simp]: "chns (emit e s) = chns s"
  and devs_emit [simp]: "devs (emit e s) = devs s"
  and ctxs_emit [simp]: "ctxs (emit e s) = ctxs s"
  and brk_emit [simp]: "brk (emit e s) = brk s"
  and allocs_emit [simp]: "allocs (emit e s) = allocs s"
  and trace_emit [simp]: "trace (emit e s) = trace s @ [e]"
  by (simp_all add: emit_def)

lemma alloc_ok_nil: "allocs s = [] \<Longrightarrow> alloc_ok s = (True, s)"
  by (simp add: alloc_ok_def)

lemma strdup_nil: "allocs s = [] \<Longrightarrow> strdup c s = (Some c, s)"
  by (simp add: strdup_def alloc_ok_nil)

lemma props_named_Nil [simp]: "props_named nm [] = []"
  by (simp add: props_named_def)

lemma props_named_Cons:
  "props_named nm (a # ps) = (if attr_name a = nm then a # props_named nm ps else props_named nm ps)"
  by (simp add: props_named_def)

lemma last_value_Cons:
  "last_value nm (a # ps) =
     (if props_named nm ps = [] then (if attr_name a = nm then attr_children a else None)
      else last_value nm ps)"
  by (simp add: last_value_def props_named_Cons)

lemma elems_Nil [simp]: "elems nm [] = []"
  by (simp add: elems_def)

lemma elems_Cons:
  "elems nm (k # ks) = (if node_name k = nm then k # elems nm ks else elems nm ks)"
  by (simp add: elems_def)

lemma valued_last: "ps \<noteq> [] \<Longrightarrow> valued ps \<Longrightarrow> \<exists>v. attr_children (last ps) = Some v"
  by (induction ps) (auto simp: valued_def)

lemma last_value_Some:
  "props_named nm ps \<noteq> [] \<Longrightarrow> valued (props_named nm ps) \<Longrightarrow> \<exists>v. last_value nm ps = Some v"
  using valued_last [of "props_named nm ps"] by (simp add: last_value_def)

lemma valued_props_named: "valued ps \<Longrightarrow> valued (props_named nm ps)"
  by (induction ps) (auto simp: valued_def props_named_def)

section \<open>Runs of the attribute collector\<close>

lemma add_attr_to_channel_props_run:
  "chns s chn = Some c \<Longrightarrow> allocs s = [] \<Longrightarrow> valued (props_named ''name'' ps) \<Longrightarrow>
   add_attr_to_channel_props chn ps name s =
     Inr (if props_named ''name'' ps = [] then name else last_value ''name'' ps,
          s\<lparr>trace := trace s @ attr_chn_warnings (chn_id c) ps\<rparr>)"
  by (induction ps arbitrary: name s)
     (auto simp: strdup_nil last_value_Cons props_named_Cons attr_chn_warnings_def valued_def emit_def)

lemma add_attr_to_channel_run:
  "chns s chn = Some c \<Longrightarrow> allocs s = [] \<Longrightarrow> wf_attribute n \<Longrightarrow>
   last_value ''name'' (properties n) = Some nm \<Longrightarrow>
     add_attr_to_channel chn n s =
       Inr (0, s\<lparr>chns := (chns s)(chn \<mapsto> c\<lparr>chn_attrs := chn_attrs c @ [nm]\<rparr>),
                 trace := trace s @ attr_chn_warnings (chn_id c) (properties n)\<rparr>)"
  by (simp add: add_attr_to_channel_def add_attr_to_channel_props_run wf_attribute_def alloc_ok_nil)

lemma add_attr_to_device_props_run:
  "devs s dev = Some d \<Longrightarrow> allocs s = [] \<Longrightarrow> valued (props_named ''name'' ps) \<Longrightarrow>
   add_attr_to_device_props dev ps name s =
     Inr (if props_named ''name'' ps = [] then name else last_value ''name'' ps,
          s\<lparr>trace := trace s @ attr_dev_warnings (dev_id d) ps\<rparr>)"
  by (induction ps arbitrary: name s)
     (auto simp: strdup_nil last_value_Cons props_named_Cons attr_dev_warnings_def valued_def emit_def)

lemma add_attr_to_device_run:
  "devs s dev = Some d \<Longrightarrow> allocs s = [] \<Longrightarrow> wf_attribute n \<Longrightarrow>
   last_value ''name'' (properties n) = Some nm \<Longrightarrow>
     add_attr_to_device dev n s =
       Inr (0, s\<lparr>devs := (devs s)(dev \<mapsto> d\<lparr>dev_attrs := dev_attrs d @ [nm]\<rparr>),
                 trace := trace s @ attr_dev_warnings (dev_id d) (properties n)\<rparr>)"
  by (simp add: add_attr_to_device_def add_attr_to_device_props_run wf_attribute_def alloc_ok_nil)

section \<open>Runs of the channel builder\<close>

lemma chan_scan_dev [simp]: "chn_dev (chan_scan ps c) = chn_dev c"
  by (induction ps arbitrary: c) simp_all

lemma chan_scan_attrs [simp]: "chn_attrs (chan_scan ps c) = chn_attrs c"
  by (induction ps arbitrary: c) simp_all

lemma chan_scan_name:
  "chn_name (chan_scan ps c) =
     (if props_named ''name'' ps = [] then chn_name c else last_value ''name'' ps)"
  by (induction ps arbitrary: c) (simp_all add: last_value_Cons props_named_Cons)

lemma chan_scan_id:
  "chn_id (chan_scan ps c) =
     (if props_named ''id'' ps = [] then chn_id c else last_value ''id'' ps)"
  by (induction ps arbitrary: c) (simp_all add: last_value_Cons props_named_Cons)

lemma chan_scan_output: "is_output (chan_scan ps c) = (is_output c \<or> says_output ps)"
  by (induction ps arbitrary: c) (auto simp add: says_output_def)

lemma create_channel_props_run:
  "chns s chn = Some c \<Longrightarrow> allocs s = [] \<Longrightarrow> valued ps \<Longrightarrow>
   create_channel_props chn ps s =
     Inr (s\<lparr>chns := (chns s)(chn \<mapsto> chan_scan ps c),
            trace := trace s @ chan_props_warnings ps\<rparr>)"
  by (induction ps arbitrary: c s)
     (auto simp: strdup_nil chan_props_warnings_def valued_def emit_def map_upd_triv)

lemma create_channel_children_run:
  "chns s chn = Some c \<Longrightarrow> allocs s = [] \<Longrightarrow> list_all wf_attribute (elems ''attribute'' ks) \<Longrightarrow>
   create_channel_children chn ks s =
     Inr (True, s\<lparr>chns := (chns s)(chn \<mapsto> c\<lparr>chn_attrs := chn_attrs c @ collect_names ks\<rparr>),
            trace := trace s @ chan_children_warnings (chn_id c) ks\<rparr>)"
proof (induction ks arbitrary: c s)
  case Nil
  then show ?case by (simp add: map_upd_triv chan_children_warnings_def)
next
  case (Cons k ks)
  show ?case
  proof (cases "node_name k = ''attribute''")
    case True
    with Cons.prems have wf: "wf_attribute k" and rest: "list_all wf_attribute (elems ''attribute'' ks)"
      by (simp_all add: elems_Cons)
    from wf obtain nm where nm: "last_value ''name'' (properties k) = Some nm"
      using last_value_Some [of "''name''" "properties k"] by (auto simp: wf_attribute_def)
    let ?c1 = "c\<lparr>chn_attrs := chn_attrs c @ [nm]\<rparr>"
    let ?s1 = "s\<lparr>chns := (chns s)(chn \<mapsto> ?c1),
                  trace := trace s @ attr_chn_warnings (chn_id c) (properties k)\<rparr>"
    have step: "add_attr_to_channel chn k s = Inr (0, ?s1)"
      by (rule add_attr_to_channel_run [OF Cons.prems(1,2) wf nm])
    have "create_channel_children chn ks ?s1 =
       Inr (True, ?s1\<lparr>chns := (chns ?s1)(chn \<mapsto> ?c1\<lparr>chn_attrs := chn_attrs ?c1 @ collect_names ks\<rparr>),
            trace := trace ?s1 @ chan_children_warnings (chn_id ?c1) ks\<rparr>)"
      by (rule Cons.IH) (simp_all add: Cons.prems(2) rest)
    then show ?thesis
      using True nm step by (simp add: chan_children_warnings_def fun_eq_iff)
  next
    case False
    with Cons.prems have rest: "list_all wf_attribute (elems ''attribute'' ks)"
      by (simp add: elems_Cons)
    show ?thesis
      using False rest Cons.prems(1,2)
      by (simp add: Cons.IH chan_children_warnings_def emit_def)
  qed
qed

lemma zero_channel_fields [simp]:
  "chn_dev zero_channel = None" "chn_name zero_channel = None" "chn_id zero_channel = None"
  "is_output zero_channel = False" "chn_attrs zero_channel = []"
  by (simp_all add: zero_channel_def)

lemma calloc_channel_nil:
  "allocs s = [] \<Longrightarrow>
   calloc_channel s = (Some (brk s), s\<lparr>chns := (chns s)(brk s \<mapsto> zero_channel), brk := Suc (brk s)\<rparr>)"
  by (simp add: calloc_channel_def alloc_ok_nil)

lemma create_channel_run:
  assumes "allocs s = []" and "wf_channel n"
  shows "create_channel dev n s =
     Inr (Some (brk s),
          s\<lparr>chns := (chns s)(brk s \<mapsto> built_channel dev n), brk := Suc (brk s),
            trace := trace s @ channel_warnings n\<rparr>)"
proof -
  from assms(2) have ps: "valued (properties n)" and idp: "props_named ''id'' (properties n) \<noteq> []"
    and ks: "list_all wf_attribute (elems ''attribute'' (children n))"
    by (simp_all add: wf_channel_def)
  from idp ps obtain v where v: "last_value ''id'' (properties n) = Some v"
    using last_value_Some valued_props_named by blast
  show ?thesis
    using assms(1) ps ks idp v
    by (simp add: create_channel_def calloc_channel_nil create_channel_props_run
          create_channel_children_run chan_scan_id built_channel_def channel_warnings_def fun_eq_iff)
qed

section \<open>Runs of the device builder\<close>

lemma zero_device_fields [simp]:
  "dev_ctx zero_device = None" "dev_name zero_device = None" "dev_id zero_device = None"
  "dev_attrs zero_device = []" "dev_channels zero_device = []"
  by (simp_all add: zero_device_def)

lemma dev_scan_ctx [simp]: "dev_ctx (dev_scan ps d) = dev_ctx d"
  by (induction ps arbitrary: d) simp_all

lemma dev_scan_attrs [simp]: "dev_attrs (dev_scan ps d) = dev_attrs d"
  by (induction ps arbitrary: d) simp_all

lemma dev_scan_channels [simp]: "dev_channels (dev_scan ps d) = dev_channels d"
  by (induction ps arbitrary: d) simp_all

lemma dev_scan_name:
  "dev_name (dev_scan ps d) =
     (if props_named ''name'' ps = [] then dev_name d else last_value ''name'' ps)"
  by (induction ps arbitrary: d) (simp_all add: last_value_Cons props_named_Cons)

lemma dev_scan_id:
  "dev_id (dev_scan ps d) =
     (if props_named ''id'' ps = [] then dev_id d else last_value ''id'' ps)"
  by (induction ps arbitrary: d) (simp_all add: last_value_Cons props_named_Cons)

lemma create_device_props_run:
  "devs s dev = Some d \<Longrightarrow> allocs s = [] \<Longrightarrow>
   valued (props_named ''name'' ps) \<Longrightarrow> valued (props_named ''id'' ps) \<Longrightarrow>
   create_device_props dev ps s =
     Inr (s\<lparr>devs := (devs s)(dev \<mapsto> dev_scan ps d),
            trace := trace s @ dev_props_warnings ps\<rparr>)"
  by (induction ps arbitrary: d s)
     (auto simp: strdup_nil dev_props_warnings_def valued_def emit_def map_upd_triv
        props_named_Cons)

lemma upt_add_Suc: "[b ..< Suc (b + m)] = b # [Suc b ..< Suc (b + m)]"
  by (simp add: upt_conv_Cons)

lemma create_device_children_run:
  "devs s dev = Some d \<Longrightarrow> allocs s = [] \<Longrightarrow>
   list_all wf_channel (elems ''channel'' ks) \<Longrightarrow>
   list_all wf_attribute (elems ''attribute'' ks) \<Longrightarrow>
   create_device_children dev ks s =
     Inr (True,
          s\<lparr>chns := put_channels dev (brk s) ks (chns s),
            devs := (devs s)(dev \<mapsto> d\<lparr>dev_attrs := dev_attrs d @ collect_names ks,
              dev_channels := dev_channels d @ [brk s ..< brk s + length (elems ''channel'' ks)]\<rparr>),
            brk := brk s + length (elems ''channel'' ks),
            trace := trace s @ dev_children_warnings (dev_id d) ks\<rparr>)"
proof (induction ks arbitrary: d s)
  case Nil
  then show ?case by (simp add: map_upd_triv dev_children_warnings_def)
next
  case (Cons k ks)
  consider (chan) "node_name k = ''channel''"
    | (attr) "node_name k \<noteq> ''channel''" "node_name k = ''attribute''"
    | (other) "node_name k \<noteq> ''channel''" "node_name k \<noteq> ''attribute''"
    by blast
  then show ?case
  proof cases
    case chan
    with Cons.prems have wf: "wf_channel k"
      and rest: "list_all wf_channel (elems ''channel'' ks)"
        "list_all wf_attribute (elems ''attribute'' ks)"
      by (simp_all add: elems_Cons)
    let ?s1 = "s\<lparr>chns := (chns s)(brk s \<mapsto> built_channel dev k), brk := Suc (brk s),
                 trace := trace s @ channel_warnings k\<rparr>"
    let ?d2 = "d\<lparr>dev_channels := dev_channels d @ [brk s]\<rparr>"
    let ?s2 = "?s1\<lparr>devs := (devs ?s1)(dev \<mapsto> ?d2)\<rparr>"
    have step: "create_channel dev k s = Inr (Some (brk s), ?s1)"
      by (rule create_channel_run [OF Cons.prems(2) wf])
    have "create_device_children dev ks ?s2 =
       Inr (True,
          ?s2\<lparr>chns := put_channels dev (brk ?s2) ks (chns ?s2),
            devs := (devs ?s2)(dev \<mapsto> ?d2\<lparr>dev_attrs := dev_attrs ?d2 @ collect_names ks,
              dev_channels := dev_channels ?d2 @ [brk ?s2 ..< brk ?s2 + length (elems ''channel'' ks)]\<rparr>),
            brk := brk ?s2 + length (elems ''channel'' ks),
            trace := trace ?s2 @ dev_children_warnings (dev_id ?d2) ks\<rparr>)"
      by (rule Cons.IH) (simp_all add: Cons.prems(2) rest)
    then show ?thesis
      using chan step Cons.prems(1,2)
      by (simp add: alloc_ok_nil dev_children_warnings_def elems_Cons upt_add_Suc fun_eq_iff
            del: upt_Suc)
  next
    case attr
    with Cons.prems have wf: "wf_attribute k"
      and rest: "list_all wf_channel (elems ''channel'' ks)"
        "list_all wf_attribute (elems ''attribute'' ks)"
      by (simp_all add: elems_Cons)
    from wf obtain nm where nm: "last_value ''name'' (properties k) = Some nm"
      using last_value_Some [of "''name''" "properties k"] by (auto simp: wf_attribute_def)
    let ?d1 = "d\<lparr>dev_attrs := dev_attrs d @ [nm]\<rparr>"
    let ?s1 = "s\<lparr>devs := (devs s)(dev \<mapsto> ?d1),
                  trace := trace s @ attr_dev_warnings (dev_id d) (properties k)\<rparr>"
    have step: "add_attr_to_device dev k s = Inr (0, ?s1)"
      by (rule add_attr_to_device_run [OF Cons.prems(1,2) wf nm])
    have "create_device_children dev ks ?s1 =
       Inr (True,
          ?s1\<lparr>chns := put_channels dev (brk ?s1) ks (chns ?s1),
            devs := (devs ?s1)(dev \<mapsto> ?d1\<lparr>dev_attrs := dev_attrs ?d1 @ collect_names ks,
              dev_channels := dev_channels ?d1 @ [brk ?s1 ..< brk ?s1 + length (elems ''channel'' ks)]\<rparr>),
            brk := brk ?s1 + length (elems ''channel'' ks),
            trace := trace ?s1 @ dev_children_warnings (dev_id ?d1) ks\<rparr>)"
      by (rule Cons.IH) (simp_all add: Cons.prems(2) rest)
    then show ?thesis
      using attr nm step
      by (simp add: dev_children_warnings_def elems_Cons fun_eq_iff)
  next
    case other
    with Cons.prems have rest: "list_all wf_channel (elems ''channel'' ks)"
        "list_all wf_attribute (elems ''attribute'' ks)"
      by (simp_all add: elems_Cons)
    show ?thesis
      using other rest Cons.prems(1,2)
      by (simp add: Cons.IH dev_children_warnings_def emit_def elems_Cons)
  qed
qed

lemma calloc_device_nil:
  "allocs s = [] \<Longrightarrow>
   calloc_device s = (Some (brk s), s\<lparr>devs := (devs s)(brk s \<mapsto> zero_device), brk := Suc (brk s)\<rparr>)"
  by (simp add: calloc_device_def alloc_ok_nil)

lemma create_device_run:
  assumes "allocs s = []" and "wf_device n"
  shows "create_device ctx n s =
     Inr (Some (brk s), (put_device ctx n s)\<lparr>trace := trace s @ device_warnings n\<rparr>)"
proof -
  from assms(2) have idp: "props_named ''id'' (properties n) \<noteq> []"
    and vi: "valued (props_named ''id'' (properties n))"
    and vn: "valued (props_named ''name'' (properties n))"
    and cs: "list_all wf_channel (elems ''channel'' (children n))"
    and ks: "list_all wf_attribute (elems ''attribute'' (children n))"
    by (simp_all add: wf_device_def)
  from idp vi obtain v where v: "last_value ''id'' (properties n) = Some v"
    using last_value_Some by blast
  show ?thesis
    using assms(1) idp vi vn cs ks v
    by (simp add: create_device_def calloc_device_nil create_device_props_run
          create_device_children_run dev_scan_id built_device_def device_warnings_def
          put_device_def fun_eq_iff)
qed

section \<open>Runs of the context builder\<close>

lemma zero_context_fields [simp]:
  "ctx_name zero_context = None" "ctx_ops zero_context = None" "ctx_devices zero_context = []"
  by (simp_all add: zero_context_def)

lemma put_device_fields [simp]:
  "ctxs (put_device ctx k s) = ctxs s"
  "trace (put_device ctx k s) = trace s"
  "allocs (put_device ctx k s) = allocs s"
  "brk (put_device ctx k s) = Suc (brk s) + length (elems ''channel'' (children k))"
  by (simp_all add: put_device_def)

lemma put_device_ctxs_update:
  "put_device ctx k (s\<lparr>ctxs := x\<rparr>) = (put_device ctx k s)\<lparr>ctxs := x\<rparr>"
  by (simp add: put_device_def)

lemma put_device_trace_update:
  "put_device ctx k (s\<lparr>trace := x\<rparr>) = (put_device ctx k s)\<lparr>trace := x\<rparr>"
  by (simp add: put_device_def)

lemma put_devices_ctxs_update:
  "put_devices ctx ks (s\<lparr>ctxs := x\<rparr>) = (put_devices ctx ks s)\<lparr>ctxs := x\<rparr>"
  by (induction ks arbitrary: s) (simp_all add: put_device_ctxs_update)

lemma put_devices_trace_update:
  "put_devices ctx ks (s\<lparr>trace := x\<rparr>) = (put_devices ctx ks s)\<lparr>trace := x\<rparr>"
  by (induction ks arbitrary: s) (simp_all add: put_device_trace_update)

lemma put_devices_fields [simp]:
  "ctxs (put_devices ctx ks s) = ctxs s"
  "trace (put_devices ctx ks s) = trace s"
  "allocs (put_devices ctx ks s) = allocs s"
  by (induction ks arbitrary: s) simp_all

lemma helper_children_run:
  "ctxs s ctx = Some c \<Longrightarrow> allocs s = [] \<Longrightarrow> list_all wf_device (elems ''device'' ks) \<Longrightarrow>
   helper_children ctx ks s =
     Inr (True,
          (put_devices ctx ks s)
            \<lparr>ctxs := (ctxs s)(ctx \<mapsto> c\<lparr>ctx_devices := ctx_devices c @ device_addrs (brk s) ks\<rparr>),
             trace := trace s @ ctx_children_warnings ks\<rparr>)"
proof (induction ks arbitrary: c s)
  case Nil
  then show ?case by (simp add: map_upd_triv ctx_children_warnings_def)
next
  case (Cons k ks)
  show ?case
  proof (cases "node_name k = ''device''")
    case True
    with Cons.prems have wf: "wf_device k" and rest: "list_all wf_device (elems ''device'' ks)"
      by (simp_all add: elems_Cons)
    let ?s1 = "(put_device ctx k s)\<lparr>trace := trace s @ device_warnings k\<rparr>"
    let ?c2 = "c\<lparr>ctx_devices := ctx_devices c @ [brk s]\<rparr>"
    let ?s2 = "?s1\<lparr>ctxs := (ctxs ?s1)(ctx \<mapsto> ?c2)\<rparr>"
    have step: "create_device ctx k s = Inr (Some (brk s), ?s1)"
      by (rule create_device_run [OF Cons.prems(2) wf])
    have "helper_children ctx ks ?s2 =
       Inr (True,
          (put_devices ctx ks ?s2)
            \<lparr>ctxs := (ctxs ?s2)(ctx \<mapsto> ?c2\<lparr>ctx_devices := ctx_devices ?c2 @ device_addrs (brk ?s2) ks\<rparr>),
             trace := trace ?s2 @ ctx_children_warnings ks\<rparr>)"
      by (rule Cons.IH) (simp_all add: Cons.prems(2) rest)
    then show ?thesis
      using True step Cons.prems(1,2)
      by (simp add: alloc_ok_nil ctx_children_warnings_def put_devices_ctxs_update
            put_devices_trace_update fun_eq_iff)
  next
    case False
    with Cons.prems have rest: "list_all wf_device (elems ''device'' ks)"
      by (simp add: elems_Cons)
    show ?thesis
      using False rest Cons.prems(1,2)
      by (simp add: Cons.IH ctx_children_warnings_def emit_def put_devices_trace_update)
  qed
qed

lemma calloc_context_nil:
  "allocs s = [] \<Longrightarrow>
   calloc_context s = (Some (brk s), s\<lparr>ctxs := (ctxs s)(brk s \<mapsto> zero_context), brk := Suc (brk s)\<rparr>)"
  by (simp add: calloc_context_def alloc_ok_nil)

lemma helper_run:
  assumes "allocs s = []" and "wf_context (xmlDocGetRootElement doc)"
  shows "iio_create_xml_context_helper doc s =
     Inr (Some (brk s),
          (put_context (xmlDocGetRootElement doc) s)
            \<lparr>trace := trace s @ ctx_children_warnings (children (xmlDocGetRootElement doc))\<rparr>)"
proof -
  let ?root = "xmlDocGetRootElement doc"
  let ?c1 = "zero_context\<lparr>ctx_name := Some ''xml'', ctx_ops := Some Xml_ops\<rparr>"
  let ?s1 = "s\<lparr>brk := Suc (brk s), ctxs := (ctxs s)(brk s \<mapsto> ?c1)\<rparr>"
  from assms(2) have nm: "node_name ?root = ''context''"
    and ds: "list_all wf_device (elems ''device'' (children ?root))"
    by (simp_all add: wf_context_def)
  have loop: "helper_children (brk s) (children ?root) ?s1 =
     Inr (True,
          (put_devices (brk s) (children ?root) ?s1)
            \<lparr>ctxs := (ctxs ?s1)(brk s \<mapsto> ?c1\<lparr>ctx_devices := ctx_devices ?c1 @ device_addrs (brk ?s1) (children ?root)\<rparr>),
             trace := trace ?s1 @ ctx_children_warnings (children ?root)\<rparr>)"
    by (rule helper_children_run) (simp_all add: assms(1) ds)
  have c1: "?c1\<lparr>ctx_devices := ctx_devices ?c1 @ device_addrs (Suc (brk s)) (children ?root)\<rparr> =
     \<lparr>ctx_name = Some ''xml'', ctx_ops = Some Xml_ops,
       ctx_devices = device_addrs (Suc (brk s)) (children ?root)\<rparr>"
    by (simp add: zero_context_def)
  show ?thesis
    using assms(1) nm loop c1
    by (simp add: iio_create_xml_context_helper_def calloc_context_nil put_context_def
          put_devices_ctxs_update fun_eq_iff)
qed

lemma last_value_empty: "props_named nm ps = [] \<Longrightarrow> last_value nm ps = None"
  by (simp add: last_value_def)

lemma built_channel_fields:
  "chn_dev (built_channel dev n) = Some dev"
  "chn_name (built_channel dev n) = last_value ''name'' (properties n)"
  "chn_id (built_channel dev n) = last_value ''id'' (properties n)"
  "is_output (built_channel dev n) = says_output (properties n)"
  "chn_attrs (built_channel dev n) = collect_names (children n)"
  by (simp_all add: built_channel_def chan_scan_name chan_scan_id chan_scan_output last_value_empty)

lemma built_device_fields:
  "dev_ctx (built_device ctx b n) = Some ctx"
  "dev_name (built_device ctx b n) = last_value ''name'' (properties n)"
  "dev_id (built_device ctx b n) = last_value ''id'' (properties n)"
  "dev_attrs (built_device ctx b n) = collect_names (children n)"
  "dev_channels (built_device ctx b n) = [Suc b ..< Suc b + length (elems ''channel'' (children n))]"
  by (simp_all add: built_device_def dev_scan_name dev_scan_id last_value_empty)

lemma add_attr_to_channel_props_unnamed:
  "chns s chn = Some c \<Longrightarrow> props_named ''name'' ps = [] \<Longrightarrow>
   add_attr_to_channel_props chn ps name s =
     Inr (name, s\<lparr>trace := trace s @ attr_chn_warnings (chn_id c) ps\<rparr>)"
  by (induction ps arbitrary: s)
     (auto simp: props_named_Cons attr_chn_warnings_def emit_def split: if_splits)

lemma add_attr_to_device_props_unnamed:
  "devs s dev = Some d \<Longrightarrow> props_named ''name'' ps = [] \<Longrightarrow>
   add_attr_to_device_props dev ps name s =
     Inr (name, s\<lparr>trace := trace s @ attr_dev_warnings (dev_id d) ps\<rparr>)"
  by (induction ps arbitrary: s)
     (auto simp: props_named_Cons attr_dev_warnings_def emit_def split: if_splits)

lemma add_attr_to_channel_unnamed:
  "chns s chn = Some c \<Longrightarrow> props_named ''name'' (properties n) = [] \<Longrightarrow>
   add_attr_to_channel chn n s =
     Inr (- 1, s\<lparr>trace := trace s @ attr_chn_warnings (chn_id c) (properties n)
                 @ [ERROR ''Incomplete attribute in channel %s'' [chn_id c]]\<rparr>)"
  by (simp add: add_attr_to_channel_def add_attr_to_channel_props_unnamed emit_def)

lemma add_attr_to_device_unnamed:
  "devs s dev = Some d \<Longrightarrow> props_named ''name'' (properties n) = [] \<Longrightarrow>
   add_attr_to_device dev n s =
     Inr (- 1, s\<lparr>trace := trace s @ attr_dev_warnings (dev_id d) (properties n)
                 @ [ERROR ''Incomplete attribute in device %s'' [dev_id d]]\<rparr>)"
  by (simp add: add_attr_to_device_def add_attr_to_device_props_unnamed emit_def)

lemma wf_attribute_value: "wf_attribute n \<Longrightarrow> \<exists>nm. last_value ''name'' (properties n) = Some nm"
  using last_value_Some [of "''name''" "properties n"] by (simp add: wf_attribute_def)

lemma attr_chn_warnings_named: "\<forall>a\<in>set ps. attr_name a = ''name'' \<Longrightarrow> attr_chn_warnings cid ps = []"
  by (induction ps) (simp_all add: attr_chn_warnings_def)

lemma attr_dev_warnings_named: "\<forall>a\<in>set ps. attr_name a = ''name'' \<Longrightarrow> attr_dev_warnings did ps = []"
  by (induction ps) (simp_all add: attr_dev_warnings_def)

lemma chan_props_warnings_known:
  "\<forall>a\<in>set ps. attr_name a = ''name'' \<or> attr_name a = ''id'' \<Longrightarrow> chan_props_warnings ps = []"
  by (induction ps) (auto simp: chan_props_warnings_def)

lemma dev_props_warnings_known:
  "\<forall>a\<in>set ps. attr_name a = ''name'' \<or> attr_name a = ''id'' \<Longrightarrow> dev_props_warnings ps = []"
  by (induction ps) (auto simp: dev_props_warnings_def)

lemma last_value_last: "props_named nm ps \<noteq> [] \<Longrightarrow> last_value nm ps = attr_children (last (props_named nm ps))"
  by (simp add: last_value_def)

lemma put_device_devs: "devs (put_device ctx n s) (brk s) = Some (built_device ctx (brk s) n)"
  by (simp add: put_device_def)

lemma alloc_ok_snd: "snd (alloc_ok s) = s\<lparr>allocs := tl (allocs s)\<rparr>"
  by (simp add: alloc_ok_def split: list.splits)

lemma alloc_ok_state: "alloc_ok s = (ok, s') \<Longrightarrow> s' = s\<lparr>allocs := tl (allocs s)\<rparr>"
  using alloc_ok_snd [of s] by simp

section \<open>No read through a null value node\<close>

lemma all_valued_node: "all_valued n \<Longrightarrow> valued (properties n) \<and> (\<forall>k\<in>set (children n). all_valued k)"
  by (cases n) simp

lemma valued_Nil [simp]: "valued []"
  by (simp add: valued_def)

lemma valued_Cons: "valued (a # ps) \<longleftrightarrow> attr_children a \<noteq> None \<and> valued ps"
  by (simp add: valued_def)

lemma add_attr_to_channel_props_no_null:
  "valued ps \<Longrightarrow> add_attr_to_channel_props chn ps name s \<noteq> Inl NullDeref"
  by (induction ps arbitrary: name s) (auto simp: valued_Cons split: option.splits prod.splits)

lemma add_attr_to_device_props_no_null:
  "valued ps \<Longrightarrow> add_attr_to_device_props dev ps name s \<noteq> Inl NullDeref"
  by (induction ps arbitrary: name s) (auto simp: valued_Cons split: option.splits prod.splits)

lemma add_attr_to_channel_no_null:
  "valued (properties n) \<Longrightarrow> add_attr_to_channel chn n s \<noteq> Inl NullDeref"
  using add_attr_to_channel_props_no_null [of "properties n" chn None s]
  by (auto simp: add_attr_to_channel_def split: sum.splits option.splits prod.splits)

lemma add_attr_to_device_no_null:
  "valued (properties n) \<Longrightarrow> add_attr_to_device dev n s \<noteq> Inl NullDeref"
  using add_attr_to_device_props_no_null [of "properties n" dev None s]
  by (auto simp: add_attr_to_device_def split: sum.splits option.splits prod.splits)

lemma create_channel_props_no_null:
  "valued ps \<Longrightarrow> create_channel_props chn ps s \<noteq> Inl NullDeref"
  by (induction ps arbitrary: s) (auto simp: valued_Cons split: option.splits prod.splits)

lemma create_device_props_no_null:
  "valued ps \<Longrightarrow> create_device_props dev ps s \<noteq> Inl NullDeref"
  by (induction ps arbitrary: s) (auto simp: valued_Cons split: option.splits prod.splits)

lemma create_channel_children_no_null:
  "\<forall>k\<in>set ks. all_valued k \<Longrightarrow> create_channel_children chn ks s \<noteq> Inl NullDeref"
proof (induction ks arbitrary: s)
  case Nil
  show ?case by simp
next
  case (Cons k ks)
  then have "valued (properties k)" and rest: "\<forall>k\<in>set ks. all_valued k"
    by (simp_all add: all_valued_node)
  then show ?case
    using add_attr_to_channel_no_null [of k chn s] Cons.IH
    by (auto split: sum.splits prod.splits)
qed

lemma free_channel_no_null: "free_channel chn s \<noteq> Inl NullDeref"
  by (simp add: free_channel_def split: option.splits)

lemma free_channels_no_null: "free_channels cs s \<noteq> Inl NullDeref"
  by (induction cs arbitrary: s) (auto simp: free_channel_no_null split: sum.splits)

lemma free_device_no_null: "free_device dev s \<noteq> Inl NullDeref"
  by (auto simp: free_device_def free_channels_no_null split: option.splits sum.splits)

lemma free_devices_no_null: "free_devices ds s \<noteq> Inl NullDeref"
  by (induction ds arbitrary: s) (auto simp: free_device_no_null split: sum.splits)

lemma create_channel_no_null:
  assumes "all_valued n"
  shows "create_channel dev n s \<noteq> Inl NullDeref"
proof -
  from assms have ps: "valued (properties n)" and ks: "\<forall>k\<in>set (children n). all_valued k"
    by (simp_all add: all_valued_node)
  show ?thesis
    using create_channel_props_no_null [OF ps] create_channel_children_no_null [OF ks]
    by (auto simp: create_channel_def err_free_channel_def free_channel_no_null
          split: prod.splits option.splits sum.splits)
qed

lemma create_device_children_no_null:
  "\<forall>k\<in>set ks. all_valued k \<Longrightarrow> create_device_children dev ks s \<noteq> Inl NullDeref"
proof (induction ks arbitrary: s)
  case Nil
  show ?case by simp
next
  case (Cons k ks)
  then have k: "all_valued k" "valued (properties k)" and rest: "\<forall>k\<in>set ks. all_valued k"
    by (simp_all add: all_valued_node)
  then show ?case
    using add_attr_to_device_no_null [of k dev s] create_channel_no_null [of k dev s] Cons.IH
    by (auto split: sum.splits prod.splits option.splits)
qed

lemma create_device_no_null:
  assumes "all_valued n"
  shows "create_device ctx n s \<noteq> Inl NullDeref"
proof -
  from assms have ps: "valued (properties n)" and ks: "\<forall>k\<in>set (children n). all_valued k"
    by (simp_all add: all_valued_node)
  show ?thesis
    using create_device_props_no_null [OF ps] create_device_children_no_null [OF ks]
    by (auto simp: create_device_def err_free_device_def free_device_no_null
          split: prod.splits option.splits sum.splits)
qed

lemma helper_children_no_null:
  "\<forall>k\<in>set ks. all_valued k \<Longrightarrow> helper_children ctx ks s \<noteq> Inl NullDeref"
proof (induction ks arbitrary: s)
  case Nil
  show ?case by simp
next
  case (Cons k ks)
  then have k: "all_valued k" and rest: "\<forall>k\<in>set ks. all_valued k"
    by simp_all
  then show ?case
    using create_device_no_null [of k ctx s] Cons.IH
    by (auto split: sum.splits prod.splits option.splits)
qed

lemma helper_no_null:
  assumes "all_valued (xmlDocGetRootElement doc)"
  shows "iio_create_xml_context_helper doc s \<noteq> Inl NullDeref"
proof -
  from assms have ks: "\<forall>k\<in>set (children (xmlDocGetRootElement doc)). all_valued k"
    by (simp add: all_valued_node)
  show ?thesis
    using helper_children_no_null [OF ks]
    by (auto simp: iio_create_xml_context_helper_def err_free_devices_def free_devices_no_null
          Let_def split: prod.splits option.splits sum.splits)
qed

lemma create_channel_props_null:
  "chns s chn = Some c \<Longrightarrow> \<not> valued ps \<Longrightarrow> create_channel_props chn ps s = Inl NullDeref"
  by (induction ps arbitrary: c s) (auto simp: valued_Cons split: option.splits prod.splits)

section \<open>The builders leave the parser alone\<close>

lemma strdup_state: "strdup c s = (p, s') \<Longrightarrow> s' = s\<lparr>allocs := tl (allocs s)\<rparr>"
  by (auto simp: strdup_def split: prod.splits dest!: alloc_ok_state)

lemma calloc_channel_state:
  "calloc_channel s = (r, s') \<Longrightarrow>
     (r = None \<and> s' = s\<lparr>allocs := tl (allocs s)\<rparr>) \<or>
     (r = Some (brk s) \<and>
      s' = s\<lparr>allocs := tl (allocs s), chns := (chns s)(brk s \<mapsto> zero_channel), brk := Suc (brk s)\<rparr>)"
  by (auto simp: calloc_channel_def split: prod.splits if_splits dest!: alloc_ok_state)

lemma calloc_device_state:
  "calloc_device s = (r, s') \<Longrightarrow>
     (r = None \<and> s' = s\<lparr>allocs := tl (allocs s)\<rparr>) \<or>
     (r = Some (brk s) \<and>
      s' = s\<lparr>allocs := tl (allocs s), devs := (devs s)(brk s \<mapsto> zero_device), brk := Suc (brk s)\<rparr>)"
  by (auto simp: calloc_device_def split: prod.splits if_splits dest!: alloc_ok_state)

lemma calloc_context_state:
  "calloc_context s = (r, s') \<Longrightarrow>
     (r = None \<and> s' = s\<lparr>allocs := tl (allocs s)\<rparr>) \<or>
     (r = Some (brk s) \<and>
      s' = s\<lparr>allocs := tl (allocs s), ctxs := (ctxs s)(brk s \<mapsto> zero_context), brk := Suc (brk s)\<rparr>)"
  by (auto simp: calloc_context_def split: prod.splits if_splits dest!: alloc_ok_state)

lemma parser_calls_log [simp]:
  "parser_calls (tr @ [WARNING fmt args]) = parser_calls tr"
  "parser_calls (tr @ [ERROR fmt args]) = parser_calls tr"
  by (simp_all add: parser_calls_def is_log_def)

lemma add_attr_to_channel_props_calls:
  "add_attr_to_channel_props chn ps name s = Inr (r, s') \<Longrightarrow>
   parser_calls (trace s') = parser_calls (trace s)"
  by (induction ps arbitrary: name s)
     (auto split: if_splits option.splits prod.splits dest!: strdup_state)

lemma add_attr_to_device_props_calls:
  "add_attr_to_device_props dev ps name s = Inr (r, s') \<Longrightarrow>
   parser_calls (trace s') = parser_calls (trace s)"
  by (induction ps arbitrary: name s)
     (auto split: if_splits option.splits prod.splits dest!: strdup_state)

lemma add_attr_to_channel_calls:
  "add_attr_to_channel chn n s = Inr (r, s') \<Longrightarrow> parser_calls (trace s') = parser_calls (trace s)"
  by (auto simp: add_attr_to_channel_def
        split: sum.splits if_splits option.splits prod.splits
        dest!: alloc_ok_state add_attr_to_channel_props_calls)

lemma add_attr_to_device_calls:
  "add_attr_to_device dev n s = Inr (r, s') \<Longrightarrow> parser_calls (trace s') = parser_calls (trace s)"
  by (auto simp: add_attr_to_device_def
        split: sum.splits if_splits option.splits prod.splits
        dest!: alloc_ok_state add_attr_to_device_props_calls)

lemma create_channel_props_calls:
  "create_channel_props chn ps s = Inr s' \<Longrightarrow> parser_calls (trace s') = parser_calls (trace s)"
  by (induction ps arbitrary: s)
     (auto split: if_splits option.splits prod.splits dest!: strdup_state)

lemma create_device_props_calls:
  "create_device_props dev ps s = Inr s' \<Longrightarrow> parser_calls (trace s') = parser_calls (trace s)"
  by (induction ps arbitrary: s)
     (auto split: if_splits option.splits prod.splits dest!: strdup_state)

lemma create_channel_children_calls:
  "create_channel_children chn ks s = Inr (r, s') \<Longrightarrow>
   parser_calls (trace s') = parser_calls (trace s)"
  by (induction ks arbitrary: s)
     (auto split: if_splits sum.splits prod.splits dest!: add_attr_to_channel_calls)

lemma free_channel_trace: "free_channel chn s = Inr s' \<Longrightarrow> trace s' = trace s"
  by (auto simp: free_channel_def free_chn_def split: option.splits)

lemma free_channels_trace: "free_channels cs s = Inr s' \<Longrightarrow> trace s' = trace s"
  by (induction cs arbitrary: s) (auto split: sum.splits dest!: free_channel_trace)

lemma free_device_trace: "free_device dev s = Inr s' \<Longrightarrow> trace s' = trace s"
  by (auto simp: free_device_def free_dev_def split: option.splits sum.splits
        dest!: free_channels_trace)

lemma free_devices_trace: "free_devices ds s = Inr s' \<Longrightarrow> trace s' = trace s"
  by (induction ds arbitrary: s) (auto split: sum.splits dest!: free_device_trace)

lemma create_channel_calls:
  "create_channel dev n s = Inr (r, s') \<Longrightarrow> parser_calls (trace s') = parser_calls (trace s)"
  by (auto simp: create_channel_def err_free_channel_def
        split: sum.splits if_splits option.splits prod.splits
        dest!: calloc_channel_state create_channel_props_calls create_channel_children_calls
          free_channel_trace)

lemma create_device_children_calls:
  "create_device_children dev ks s = Inr (r, s') \<Longrightarrow>
   parser_calls (trace s') = parser_calls (trace s)"
  by (induction ks arbitrary: s)
     (auto simp: free_chn_def split: if_splits sum.splits prod.splits option.splits
        dest!: add_attr_to_device_calls create_channel_calls alloc_ok_state)

lemma create_device_calls:
  "create_device ctx n s = Inr (r, s') \<Longrightarrow> parser_calls (trace s') = parser_calls (trace s)"
  by (auto simp: create_device_def err_free_device_def
        split: sum.splits if_splits option.splits prod.splits
        dest!: calloc_device_state create_device_props_calls create_device_children_calls
          free_device_trace)

lemma helper_children_calls:
  "helper_children ctx ks s = Inr (r, s') \<Longrightarrow> parser_calls (trace s') = parser_calls (trace s)"
  by (induction ks arbitrary: s)
     (auto simp: free_dev_def split: if_splits sum.splits prod.splits option.splits
        dest!: create_device_calls alloc_ok_state)

lemma helper_calls:
  "iio_create_xml_context_helper doc s = Inr (r, s') \<Longrightarrow>
   parser_calls (trace s') = parser_calls (trace s)"
  by (auto simp: iio_create_xml_context_helper_def err_free_devices_def free_ctx_def Let_def
        split: sum.splits if_splits option.splits prod.splits
        dest!: calloc_context_state helper_children_calls free_devices_trace)

section \<open>What a run that returns leaves in the heap\<close>

lemma add_attr_to_channel_props_frame:
  "add_attr_to_channel_props chn ps name s = Inr (r, s') \<Longrightarrow>
   chns s' = chns s \<and> devs s' = devs s \<and> ctxs s' = ctxs s \<and> brk s' = brk s \<and>
   (\<exists>w. trace s' = trace s @ w)"
proof (induction ps arbitrary: name s)
  case Nil
  then show ?case by simp
next
  case (Cons a ps)
  from Cons.prems obtain name1 s1 w1 where
    run: "add_attr_to_channel_props chn ps name1 s1 = Inr (r, s')"
    and s1: "chns s1 = chns s" "devs s1 = devs s" "ctxs s1 = ctxs s" "brk s1 = brk s"
      "trace s1 = trace s @ w1"
    by (auto split: if_splits option.splits prod.splits dest!: strdup_state)
  from Cons.IH [OF run] s1 show ?case by auto
qed

lemma add_attr_to_channel_frame:
  "add_attr_to_channel chn n s = Inr (r, s') \<Longrightarrow> chns s chn = Some c \<Longrightarrow>
   (\<forall>a. a \<noteq> chn \<longrightarrow> chns s' a = chns s a) \<and>
   (\<exists>c'. chns s' chn = Some c' \<and> chn_dev c' = chn_dev c \<and> is_output c' = is_output c) \<and>
   devs s' = devs s \<and> ctxs s' = ctxs s \<and> brk s' = brk s \<and> (\<exists>w. trace s' = trace s @ w)"
  by (auto simp: add_attr_to_channel_def
        split: sum.splits if_splits option.splits prod.splits
        dest!: alloc_ok_state add_attr_to_channel_props_frame)

lemma create_channel_props_frame:
  "create_channel_props chn ps s = Inr s' \<Longrightarrow> chns s chn = Some c \<Longrightarrow>
   (\<forall>a. a \<noteq> chn \<longrightarrow> chns s' a = chns s a) \<and>
   (\<exists>c'. chns s' chn = Some c' \<and> chn_dev c' = chn_dev c \<and>
      is_output c' = (is_output c \<or> says_output ps)) \<and>
   devs s' = devs s \<and> ctxs s' = ctxs s \<and> brk s' = brk s \<and>
   trace s' = trace s @ chan_props_warnings ps"
proof (induction ps arbitrary: s c)
  case Nil
  then show ?case by (auto simp: chan_props_warnings_def says_output_def)
next
  case (Cons a ps)
  from Cons.prems obtain v where v: "attr_children a = Some v"
    by (auto split: option.splits)
  obtain s1 c1 where run: "create_channel_props chn ps s1 = Inr s'"
    and s1: "\<forall>a. a \<noteq> chn \<longrightarrow> chns s1 a = chns s a" "chns s1 chn = Some c1"
      "chn_dev c1 = chn_dev c"
      "is_output c1 = (is_output c \<or> attr_name a = ''type'' \<and> v = ''output'')"
      "devs s1 = devs s" "ctxs s1 = ctxs s" "brk s1 = brk s"
      "trace s1 = trace s @ chan_props_warnings [a]"
    using Cons.prems v
    by (auto simp: chan_props_warnings_def
          split: if_splits prod.splits dest!: strdup_state)
  from Cons.IH [OF run s1(2)] s1 v show ?case
    by (auto simp: chan_props_warnings_def says_output_def)
qed

lemma create_channel_children_frame:
  "create_channel_children chn ks s = Inr (r, s') \<Longrightarrow> chns s chn = Some c \<Longrightarrow>
   (\<forall>a. a \<noteq> chn \<longrightarrow> chns s' a = chns s a) \<and>
   (\<exists>c'. chns s' chn = Some c' \<and> chn_dev c' = chn_dev c \<and> is_output c' = is_output c) \<and>
   devs s' = devs s \<and> ctxs s' = ctxs s \<and> brk s' = brk s \<and> (\<exists>w. trace s' = trace s @ w)"
proof (induction ks arbitrary: s c)
  case Nil
  then show ?case by auto
next
  case (Cons k ks)
  show ?case
  proof (cases "node_name k = ''attribute''")
    case True
    with Cons.prems obtain r1 s1 where step: "add_attr_to_channel chn k s = Inr (r1, s1)"
      and rest: "r = False \<and> s' = s1 \<or> create_channel_children chn ks s1 = Inr (r, s')"
      by (auto split: sum.splits prod.splits if_splits)
    from add_attr_to_channel_frame [OF step Cons.prems(2)] obtain c1 w1 where
      s1: "\<forall>a. a \<noteq> chn \<longrightarrow> chns s1 a = chns s a" "chns s1 chn = Some c1"
        "chn_dev c1 = chn_dev c" "is_output c1 = is_output c"
        "devs s1 = devs s" "ctxs s1 = ctxs s" "brk s1 = brk s" "trace s1 = trace s @ w1"
      by auto
    from rest show ?thesis
    proof
      assume "r = False \<and> s' = s1"
      with s1 show ?thesis by auto
    next
      assume "create_channel_children chn ks s1 = Inr (r, s')"
      from Cons.IH [OF this s1(2)] s1 show ?thesis by auto
    qed
  next
    case False
    let ?s1 = "if node_name k \<noteq> ''text'' then
        emit (WARNING ''Unknown children '%s' in <device>'' [Some (node_name k)]) s else s"
    from False Cons.prems have run: "create_channel_children chn ks ?s1 = Inr (r, s')"
      and c: "chns ?s1 chn = Some c"
      by (auto split: if_splits)
    from Cons.IH [OF run c] show ?thesis
      by (auto split: if_splits)
  qed
qed

lemma create_channel_frame:
  assumes "create_channel dev n s = Inr (Some chn, s')"
  shows "chn = brk s \<and> brk s' = Suc (brk s) \<and> devs s' = devs s \<and> ctxs s' = ctxs s \<and>
    (\<forall>a. a \<noteq> brk s \<longrightarrow> chns s' a = chns s a) \<and>
    (\<exists>c'. chns s' (brk s) = Some c' \<and> chn_dev c' = Some dev \<and>
       is_output c' = says_output (properties n)) \<and>
    (\<exists>w. trace s' = trace s @ chan_props_warnings (properties n) @ w)"
proof -
  let ?c0 = "zero_channel\<lparr>chn_dev := Some dev\<rparr>"
  from assms obtain s0 s1 where chn: "chn = brk s"
    and p: "create_channel_props (brk s) (properties n) s0 = Inr s1"
    and k: "create_channel_children (brk s) (children n) s1 = Inr (True, s')"
    and s0: "chns s0 = (chns s)(brk s \<mapsto> ?c0)" "devs s0 = devs s" "ctxs s0 = ctxs s"
      "brk s0 = Suc (brk s)" "trace s0 = trace s"
    by (auto simp: create_channel_def err_free_channel_def
          split: sum.splits if_splits option.splits prod.splits
          dest!: calloc_channel_state)
  have c0: "chns s0 (brk s) = Some ?c0" by (simp add: s0)
  from create_channel_props_frame [OF p c0] obtain c1 where
    s1: "\<forall>a. a \<noteq> brk s \<longrightarrow> chns s1 a = chns s a" "chns s1 (brk s) = Some c1"
      "chn_dev c1 = Some dev" "is_output c1 = says_output (properties n)"
      "devs s1 = devs s" "ctxs s1 = ctxs s" "brk s1 = Suc (brk s)"
      "trace s1 = trace s @ chan_props_warnings (properties n)"
    using s0 by auto
  from create_channel_children_frame [OF k s1(2)] s1 s0 chn show ?thesis
    by auto
qed



lemma says_output_iff:
  "says_output ps \<longleftrightarrow> (\<exists>a\<in>set ps. attr_name a = ''type'' \<and> attr_children a = Some ''output'')"
  by (simp add: says_output_def list_ex_iff)

lemma unknown_type_warned:
  "a \<in> set ps \<Longrightarrow> attr_name a = ''type'' \<Longrightarrow> attr_children a \<noteq> Some ''output'' \<Longrightarrow>
   attr_children a \<noteq> Some ''input'' \<Longrightarrow>
   WARNING ''Unknown channel type %s'' [attr_children a] \<in> set (chan_props_warnings ps)"
  by (induction ps) (auto simp: chan_props_warnings_def)

lemma add_attr_to_device_props_frame:
  "add_attr_to_device_props dev ps name s = Inr (r, s') \<Longrightarrow>
   chns s' = chns s \<and> devs s' = devs s \<and> ctxs s' = ctxs s \<and> brk s' = brk s"
proof (induction ps arbitrary: name s)
  case Nil
  then show ?case by simp
next
  case (Cons a ps)
  from Cons.prems obtain name1 s1 where
    run: "add_attr_to_device_props dev ps name1 s1 = Inr (r, s')"
    and s1: "chns s1 = chns s" "devs s1 = devs s" "ctxs s1 = ctxs s" "brk s1 = brk s"
    by (auto split: if_splits option.splits prod.splits dest!: strdup_state)
  from Cons.IH [OF run] s1 show ?case by auto
qed

lemma add_attr_to_device_frame:
  "add_attr_to_device dev n s = Inr (r, s') \<Longrightarrow> devs s dev = Some d \<Longrightarrow>
   (\<forall>a. a \<noteq> dev \<longrightarrow> devs s' a = devs s a) \<and>
   (\<exists>d'. devs s' dev = Some d' \<and> dev_ctx d' = dev_ctx d \<and> dev_channels d' = dev_channels d) \<and>
   chns s' = chns s \<and> ctxs s' = ctxs s \<and> brk s' = brk s"
  by (auto simp: add_attr_to_device_def
        split: sum.splits if_splits option.splits prod.splits
        dest!: alloc_ok_state add_attr_to_device_props_frame)

lemma create_device_props_frame:
  "create_device_props dev ps s = Inr s' \<Longrightarrow> devs s dev = Some d \<Longrightarrow>
   (\<forall>a. a \<noteq> dev \<longrightarrow> devs s' a = devs s a) \<and>
   (\<exists>d'. devs s' dev = Some d' \<and> dev_ctx d' = dev_ctx d \<and> dev_channels d' = dev_channels d) \<and>
   chns s' = chns s \<and> ctxs s' = ctxs s \<and> brk s' = brk s"
proof (induction ps arbitrary: s d)
  case Nil
  then show ?case by auto
next
  case (Cons a ps)
  from Cons.prems obtain s1 d1 where run: "create_device_props dev ps s1 = Inr s'"
    and s1: "\<forall>a. a \<noteq> dev \<longrightarrow> devs s1 a = devs s a" "devs s1 dev = Some d1"
      "dev_ctx d1 = dev_ctx d" "dev_channels d1 = dev_channels d"
      "chns s1 = chns s" "ctxs s1 = ctxs s" "brk s1 = brk s"
    by (auto split: if_splits option.splits prod.splits dest!: strdup_state)
  from Cons.IH [OF run s1(2)] s1 show ?case by auto
qed

lemma free_channel_frame:
  "free_channel chn s = Inr s' \<Longrightarrow>
   devs s' = devs s \<and> ctxs s' = ctxs s \<and> brk s' = brk s \<and> chns s' = (chns s)(chn := None)"
  by (auto simp: free_channel_def free_chn_def split: option.splits)

lemma create_channel_others:
  "create_channel dev n s = Inr (r, s') \<Longrightarrow>
   devs s' = devs s \<and> ctxs s' = ctxs s \<and> brk s \<le> brk s' \<and> (\<forall>a<brk s. chns s' a = chns s a)"
proof (cases r)
  case (Some chn)
  assume "create_channel dev n s = Inr (r, s')"
  with Some create_channel_frame [of dev n s chn s'] show ?thesis by auto
next
  case None
  assume run: "create_channel dev n s = Inr (r, s')"
  show ?thesis
  proof (cases "fst (calloc_channel s)")
    case None
    with run show ?thesis
      by (auto simp: create_channel_def split: prod.splits dest!: calloc_channel_state)
  next
    case (Some chn)
    let ?c0 = "zero_channel\<lparr>chn_dev := Some dev\<rparr>"
    from Some run \<open>r = None\<close> obtain s0 s1 where chn: "chn = brk s"
      and p: "create_channel_props (brk s) (properties n) s0 = Inr s1"
      and s0: "chns s0 = (chns s)(brk s \<mapsto> ?c0)" "devs s0 = devs s" "ctxs s0 = ctxs s"
        "brk s0 = Suc (brk s)"
      and alt:
        "(\<exists>s2. free_channel (brk s) (emit (ERROR ''Incomplete <attribute>'' []) s1) = Inr s2 \<and> s' = s2) \<or>
         (\<exists>s2 s3. create_channel_children (brk s) (children n) s1 = Inr (False, s2) \<and>
            free_channel (brk s) s2 = Inr s3 \<and> s' = s3)"
      by (auto simp: create_channel_def err_free_channel_def
            split: sum.splits if_splits option.splits prod.splits
            dest!: calloc_channel_state)
    have c0: "chns s0 (brk s) = Some ?c0" by (simp add: s0)
    from create_channel_props_frame [OF p c0] s0 obtain c1 where
      s1: "\<forall>a. a \<noteq> brk s \<longrightarrow> chns s1 a = chns s a" "chns s1 (brk s) = Some c1"
        "devs s1 = devs s" "ctxs s1 = ctxs s" "brk s1 = Suc (brk s)"
      by auto
    from alt show ?thesis
    proof
      assume "\<exists>s2. free_channel (brk s) (emit (ERROR ''Incomplete <attribute>'' []) s1) = Inr s2 \<and> s' = s2"
      then show ?thesis using s1 by (auto dest!: free_channel_frame)
    next
      assume "\<exists>s2 s3. create_channel_children (brk s) (children n) s1 = Inr (False, s2) \<and>
          free_channel (brk s) s2 = Inr s3 \<and> s' = s3"
      then obtain s2 where k: "create_channel_children (brk s) (children n) s1 = Inr (False, s2)"
        and f: "free_channel (brk s) s2 = Inr s'"
        by auto
      from create_channel_children_frame [OF k s1(2)] s1 free_channel_frame [OF f]
      show ?thesis by auto
    qed
  qed
qed


lemma create_device_children_ctx:
  "create_device_children dev ks s = Inr (r, s') \<Longrightarrow> devs s dev = Some d \<Longrightarrow>
   \<exists>d'. devs s' dev = Some d' \<and> dev_ctx d' = dev_ctx d"
proof (induction ks arbitrary: s d)
  case Nil
  then show ?case by auto
next
  case (Cons k ks)
  from Cons.prems have
    "(\<exists>d'. devs s' dev = Some d' \<and> dev_ctx d' = dev_ctx d) \<or>
     (\<exists>s1 d1. create_device_children dev ks s1 = Inr (r, s') \<and> devs s1 dev = Some d1 \<and>
        dev_ctx d1 = dev_ctx d)"
    by (auto simp: free_chn_def
          split: if_splits sum.splits prod.splits option.splits
          dest!: create_channel_others alloc_ok_state
          dest: add_attr_to_device_frame)
  then show ?case
  proof
    assume "\<exists>d'. devs s' dev = Some d' \<and> dev_ctx d' = dev_ctx d"
    then show ?thesis .
  next
    assume "\<exists>s1 d1. create_device_children dev ks s1 = Inr (r, s') \<and> devs s1 dev = Some d1 \<and>
        dev_ctx d1 = dev_ctx d"
    then obtain s1 d1 where run: "create_device_children dev ks s1 = Inr (r, s')"
      and d1: "devs s1 dev = Some d1" "dev_ctx d1 = dev_ctx d"
      by blast
    from Cons.IH [OF run d1(1)] d1(2) show ?thesis by simp
  qed
qed

lemma owned_channels_frame:
  assumes "owned_channels s dev cs" and "brk s \<le> brk s'"
    and "\<forall>a<brk s. chns s' a = chns s a"
  shows "owned_channels s' dev cs"
  unfolding owned_channels_def
proof
  fix chn
  assume "chn \<in> set cs"
  with assms(1) obtain c where c: "chn < brk s" "chns s chn = Some c" "chn_dev c = Some dev"
    unfolding owned_channels_def by blast
  with assms(2,3) show "chn < brk s' \<and> (\<exists>c. chns s' chn = Some c \<and> chn_dev c = Some dev)"
    by simp
qed

lemma owned_channels_same:
  "owned_channels s dev cs \<Longrightarrow> brk s' = brk s \<Longrightarrow> chns s' = chns s \<Longrightarrow>
   owned_channels s' dev cs"
  by (simp add: owned_channels_def)

lemma owned_channels_snoc:
  assumes "owned_channels s dev cs" and "brk s' = Suc (brk s)"
    and "\<forall>a. a \<noteq> brk s \<longrightarrow> chns s' a = chns s a"
    and "chns s' (brk s) = Some c" and "chn_dev c = Some dev"
  shows "owned_channels s' dev (cs @ [brk s])"
  unfolding owned_channels_def
proof
  fix chn
  assume "chn \<in> set (cs @ [brk s])"
  then consider "chn \<in> set cs" | "chn = brk s" by auto
  then show "chn < brk s' \<and> (\<exists>c. chns s' chn = Some c \<and> chn_dev c = Some dev)"
  proof cases
    case 1
    with assms(1) obtain c0 where "chn < brk s" "chns s chn = Some c0" "chn_dev c0 = Some dev"
      unfolding owned_channels_def by blast
    with assms(2,3) show ?thesis by simp
  next
    case 2
    with assms(2,4,5) show ?thesis by simp
  qed
qed

lemma create_device_children_frame:
  "create_device_children dev ks s = Inr (True, s') \<Longrightarrow> devs s dev = Some d \<Longrightarrow>
   owned_channels s dev (dev_channels d) \<Longrightarrow>
   (\<forall>a. a \<noteq> dev \<longrightarrow> devs s' a = devs s a) \<and>
   (\<exists>d'. devs s' dev = Some d' \<and> dev_ctx d' = dev_ctx d \<and>
      owned_channels s' dev (dev_channels d')) \<and>
   ctxs s' = ctxs s \<and> brk s \<le> brk s' \<and> (\<forall>a<brk s. chns s' a = chns s a)"
proof (induction ks arbitrary: s d)
  case Nil
  then show ?case by simp
next
  case (Cons k ks)
  consider (chan) "node_name k = ''channel''"
    | (attr) "node_name k \<noteq> ''channel''" "node_name k = ''attribute''"
    | (other) "node_name k \<noteq> ''channel''" "node_name k \<noteq> ''attribute''"
    by blast
  then show ?case
  proof cases
    case chan
    with Cons.prems(1) obtain chn s1 where
      step: "create_channel dev k s = Inr (Some chn, s1)"
      by (simp split: if_splits sum.splits prod.splits option.splits)
    from create_channel_frame [OF step] obtain c where
      s1: "chn = brk s" "brk s1 = Suc (brk s)" "devs s1 = devs s" "ctxs s1 = ctxs s"
        "\<forall>a. a \<noteq> brk s \<longrightarrow> chns s1 a = chns s a" "chns s1 (brk s) = Some c"
        "chn_dev c = Some dev"
      by blast
    let ?d2 = "d\<lparr>dev_channels := dev_channels d @ [brk s]\<rparr>"
    let ?s2 = "(snd (alloc_ok s1))\<lparr>devs := (devs s1)(dev \<mapsto> ?d2)\<rparr>"
    have run: "create_device_children dev ks ?s2 = Inr (True, s')"
      using Cons.prems(1,2) chan step s1(1,3)
      by (auto simp: alloc_ok_snd split: if_splits prod.splits dest!: alloc_ok_state)
    have s2: "devs ?s2 = (devs s)(dev \<mapsto> ?d2)" "chns ?s2 = chns s1" "ctxs ?s2 = ctxs s"
      "brk ?s2 = Suc (brk s)"
      by (simp_all add: alloc_ok_snd s1)
    have d2: "devs ?s2 dev = Some ?d2" by (simp add: alloc_ok_snd)
    have "owned_channels s1 dev (dev_channels d @ [brk s])"
      using Cons.prems(3) s1(2,5,6,7) by (rule owned_channels_snoc)
    then have own: "owned_channels ?s2 dev (dev_channels ?d2)"
      by (simp add: owned_channels_def alloc_ok_snd)
    from Cons.IH [OF run d2 own] obtain d' where
      ih: "\<forall>a. a \<noteq> dev \<longrightarrow> devs s' a = devs ?s2 a" "devs s' dev = Some d'"
        "dev_ctx d' = dev_ctx ?d2" "owned_channels s' dev (dev_channels d')"
        "ctxs s' = ctxs ?s2" "brk ?s2 \<le> brk s'" "\<forall>a<brk ?s2. chns s' a = chns ?s2 a"
      by blast
    have "\<forall>a. a \<noteq> dev \<longrightarrow> devs s' a = devs s a"
      using ih(1) by (simp add: alloc_ok_snd s1(3))
    moreover have "\<exists>d'. devs s' dev = Some d' \<and> dev_ctx d' = dev_ctx d \<and>
        owned_channels s' dev (dev_channels d')"
      using ih(2,3,4) by simp
    moreover have "ctxs s' = ctxs s"
      using ih(5) s2(3) by simp
    moreover have "brk s \<le> brk s'"
      using ih(6) s2(4) by simp
    moreover have "\<forall>a<brk s. chns s' a = chns s a"
    proof (intro allI impI)
      fix a assume a: "a < brk s"
      then have "chns s' a = chns ?s2 a" using ih(7) s2(4) by simp
      also have "\<dots> = chns s1 a" by (simp add: s2(2))
      also have "\<dots> = chns s a" using a s1(5) by simp
      finally show "chns s' a = chns s a" .
    qed
    ultimately show ?thesis by blast
  next
    case attr
    with Cons.prems(1) obtain r1 s1 where step: "add_attr_to_device dev k s = Inr (r1, s1)"
      and run: "create_device_children dev ks s1 = Inr (True, s')"
      by (simp split: if_splits sum.splits prod.splits)
    from add_attr_to_device_frame [OF step Cons.prems(2)] obtain d1 where
      s1: "\<forall>a. a \<noteq> dev \<longrightarrow> devs s1 a = devs s a" "devs s1 dev = Some d1"
        "dev_ctx d1 = dev_ctx d" "dev_channels d1 = dev_channels d"
        "chns s1 = chns s" "ctxs s1 = ctxs s" "brk s1 = brk s"
      by blast
    have own: "owned_channels s1 dev (dev_channels d1)"
      using Cons.prems(3) s1(4,5,7) by (simp add: owned_channels_def)
    from Cons.IH [OF run s1(2) own] obtain d' where
      ih: "\<forall>a. a \<noteq> dev \<longrightarrow> devs s' a = devs s1 a" "devs s' dev = Some d'"
        "dev_ctx d' = dev_ctx d1" "owned_channels s' dev (dev_channels d')"
        "ctxs s' = ctxs s1" "brk s1 \<le> brk s'" "\<forall>a<brk s1. chns s' a = chns s1 a"
      by blast
    have "\<forall>a. a \<noteq> dev \<longrightarrow> devs s' a = devs s a"
      using ih(1) s1(1) by simp
    moreover have "\<exists>d'. devs s' dev = Some d' \<and> dev_ctx d' = dev_ctx d \<and>
        owned_channels s' dev (dev_channels d')"
      using ih(2,3,4) s1(3) by simp
    moreover have "ctxs s' = ctxs s" "brk s \<le> brk s'" "\<forall>a<brk s. chns s' a = chns s a"
      using ih(5,6,7) s1(5,6,7) by simp_all
    ultimately show ?thesis by blast
  next
    case other
    let ?s1 = "if node_name k \<noteq> ''text'' then
        emit (WARNING ''Unknown children '%s' in <device>'' [Some (node_name k)]) s else s"
    from other Cons.prems(1) have run: "create_device_children dev ks ?s1 = Inr (True, s')"
      by (simp split: if_splits)
    have f: "devs ?s1 = devs s" "chns ?s1 = chns s" "ctxs ?s1 = ctxs s" "brk ?s1 = brk s"
      by simp_all
    have d: "devs ?s1 dev = Some d" using Cons.prems(2) by simp
    have own: "owned_channels ?s1 dev (dev_channels d)"
      using Cons.prems(3) unfolding owned_channels_def f .
    from Cons.IH [OF run d own] show ?thesis
      unfolding f .
  qed
qed

lemma create_device_frame:
  assumes "create_device ctx n s = Inr (Some dev, s')"
  shows "dev = brk s \<and> brk s < brk s' \<and> ctxs s' = ctxs s \<and>
    (\<forall>a<brk s. chns s' a = chns s a) \<and> (\<forall>a. a \<noteq> brk s \<longrightarrow> devs s' a = devs s a) \<and>
    (\<exists>d. devs s' (brk s) = Some d \<and> dev_ctx d = Some ctx \<and>
       owned_channels s' (brk s) (dev_channels d))"
proof -
  let ?d0 = "zero_device\<lparr>dev_ctx := Some ctx\<rparr>"
  from assms obtain s0 s1 where dev: "dev = brk s"
    and p: "create_device_props (brk s) (properties n) s0 = Inr s1"
    and k: "create_device_children (brk s) (children n) s1 = Inr (True, s')"
    and s0: "devs s0 = (devs s)(brk s \<mapsto> ?d0)" "chns s0 = chns s" "ctxs s0 = ctxs s"
      "brk s0 = Suc (brk s)"
    by (auto simp: create_device_def err_free_device_def
          split: sum.splits if_splits option.splits prod.splits
          dest!: calloc_device_state)
  have d0: "devs s0 (brk s) = Some ?d0" by (simp add: s0)
  from create_device_props_frame [OF p d0] obtain d1 where
    p1: "\<forall>a. a \<noteq> brk s \<longrightarrow> devs s1 a = devs s0 a" "devs s1 (brk s) = Some d1"
      "dev_ctx d1 = dev_ctx ?d0" "dev_channels d1 = dev_channels ?d0"
      "chns s1 = chns s0" "ctxs s1 = ctxs s0" "brk s1 = brk s0"
    by blast
  have own: "owned_channels s1 (brk s) (dev_channels d1)"
    by (simp add: owned_channels_def p1(4))
  from create_device_children_frame [OF k p1(2) own] obtain d' where
    k1: "\<forall>a. a \<noteq> brk s \<longrightarrow> devs s' a = devs s1 a" "devs s' (brk s) = Some d'"
      "dev_ctx d' = dev_ctx d1" "owned_channels s' (brk s) (dev_channels d')"
      "ctxs s' = ctxs s1" "brk s1 \<le> brk s'" "\<forall>a<brk s1. chns s' a = chns s1 a"
    by blast
  have "brk s < brk s'" using k1(6) p1(7) s0(4) by simp
  moreover have "ctxs s' = ctxs s" using k1(5) p1(6) s0(3) by simp
  moreover have "\<forall>a<brk s. chns s' a = chns s a"
    using k1(7) p1(5,7) s0(2,4) by simp
  moreover have "\<forall>a. a \<noteq> brk s \<longrightarrow> devs s' a = devs s a"
    using k1(1) p1(1) s0(1) by simp
  moreover have "\<exists>d. devs s' (brk s) = Some d \<and> dev_ctx d = Some ctx \<and>
       owned_channels s' (brk s) (dev_channels d)"
    using k1(2,3,4) p1(3) by simp
  ultimately show ?thesis using dev by blast
qed

lemma owned_devices_frame:
  assumes "owned_devices s ctx ds" and "brk s \<le> brk s'"
    and "\<forall>a<brk s. chns s' a = chns s a" and "\<forall>a<brk s. devs s' a = devs s a"
  shows "owned_devices s' ctx ds"
  unfolding owned_devices_def
proof
  fix dev
  assume "dev \<in> set ds"
  with assms(1) obtain d where d: "dev < brk s" "devs s dev = Some d" "dev_ctx d = Some ctx"
    "owned_channels s dev (dev_channels d)"
    unfolding owned_devices_def by blast
  from d(4) assms(2,3) have "owned_channels s' dev (dev_channels d)"
    by (rule owned_channels_frame)
  with d(1,2,3) assms(2,4)
  show "dev < brk s' \<and> (\<exists>d. devs s' dev = Some d \<and> dev_ctx d = Some ctx \<and>
      owned_channels s' dev (dev_channels d))"
    by simp
qed

lemma owned_devices_snoc:
  assumes "owned_devices s ctx ds" and "dev < brk s" and "devs s dev = Some d"
    and "dev_ctx d = Some ctx" and "owned_channels s dev (dev_channels d)"
  shows "owned_devices s ctx (ds @ [dev])"
  using assms unfolding owned_devices_def by simp

lemma owned_devices_same:
  "owned_devices s ctx ds \<Longrightarrow> brk s' = brk s \<Longrightarrow> chns s' = chns s \<Longrightarrow> devs s' = devs s \<Longrightarrow>
   owned_devices s' ctx ds"
  by (simp add: owned_devices_def owned_channels_def)

lemma helper_children_frame:
  "helper_children ctx ks s = Inr (True, s') \<Longrightarrow> ctxs s ctx = Some c \<Longrightarrow>
   owned_devices s ctx (ctx_devices c) \<Longrightarrow>
   \<exists>c'. ctxs s' ctx = Some c' \<and> owned_devices s' ctx (ctx_devices c')"
proof (induction ks arbitrary: s c)
  case Nil
  then show ?case by simp
next
  case (Cons k ks)
  show ?case
  proof (cases "node_name k = ''device''")
    case True
    with Cons.prems(1) obtain dev s1 where
      step: "create_device ctx k s = Inr (Some dev, s1)"
      by (simp split: if_splits sum.splits prod.splits option.splits)
    from create_device_frame [OF step] obtain d where
      s1: "dev = brk s" "brk s < brk s1" "ctxs s1 = ctxs s"
        "\<forall>a<brk s. chns s1 a = chns s a" "\<forall>a. a \<noteq> brk s \<longrightarrow> devs s1 a = devs s a"
        "devs s1 (brk s) = Some d" "dev_ctx d = Some ctx"
        "owned_channels s1 (brk s) (dev_channels d)"
      by blast
    let ?c2 = "c\<lparr>ctx_devices := ctx_devices c @ [brk s]\<rparr>"
    let ?s2 = "(snd (alloc_ok s1))\<lparr>ctxs := (ctxs s1)(ctx \<mapsto> ?c2)\<rparr>"
    have run: "helper_children ctx ks ?s2 = Inr (True, s')"
      using Cons.prems(1,2) True step s1(1,3)
      by (auto simp: alloc_ok_snd split: if_splits prod.splits dest!: alloc_ok_state)
    have c2: "ctxs ?s2 ctx = Some ?c2" by (simp add: alloc_ok_snd)
    have le: "brk s \<le> brk s1" using s1(2) by simp
    have devs_lt: "\<forall>a<brk s. devs s1 a = devs s a"
    proof (intro allI impI)
      fix a assume "a < brk s"
      then have "a \<noteq> brk s" by simp
      with s1(5) show "devs s1 a = devs s a" by blast
    qed
    have "owned_devices s1 ctx (ctx_devices c)"
      using Cons.prems(3) le s1(4) devs_lt by (rule owned_devices_frame)
    then have "owned_devices s1 ctx (ctx_devices c @ [brk s])"
      using s1(2,6,7,8) by (rule owned_devices_snoc)
    then have "owned_devices ?s2 ctx (ctx_devices c @ [brk s])"
      by (rule owned_devices_same) (simp_all add: alloc_ok_snd)
    then have own: "owned_devices ?s2 ctx (ctx_devices ?c2)"
      by simp
    from Cons.IH [OF run c2 own] show ?thesis .
  next
    case False
    let ?s1 = "if node_name k \<noteq> ''text'' then
        emit (WARNING ''Unknown children '%s' in <context>'' [Some (node_name k)]) s else s"
    from False Cons.prems(1) have run: "helper_children ctx ks ?s1 = Inr (True, s')"
      by (simp split: if_splits)
    have c: "ctxs ?s1 ctx = Some c" using Cons.prems(2) by simp
    have own: "owned_devices ?s1 ctx (ctx_devices c)"
      using Cons.prems(3) by (rule owned_devices_same) simp_all
    from Cons.IH [OF run c own] show ?thesis .
  qed
qed

lemma helper_frame:
  assumes "iio_create_xml_context_helper doc s = Inr (Some ctx, s')"
  shows "\<exists>c. ctxs s' ctx = Some c \<and> owned_devices s' ctx (ctx_devices c)"
proof -
  let ?c0 = "zero_context\<lparr>ctx_name := Some ''xml'', ctx_ops := Some Xml_ops\<rparr>"
  from assms obtain s1 where ctx: "ctx = brk s"
    and k: "helper_children (brk s) (children (xmlDocGetRootElement doc)) s1 = Inr (True, s')"
    and s1: "ctxs s1 (brk s) = Some ?c0"
    by (auto simp: iio_create_xml_context_helper_def err_free_devices_def Let_def
          split: sum.splits if_splits option.splits prod.splits
          dest!: calloc_context_state)
  have own: "owned_devices s1 (brk s) (ctx_devices ?c0)"
    by (simp add: owned_devices_def)
  from helper_children_frame [OF k s1 own] ctx show ?thesis by simp
qed

section \<open>Reading the built objects back\<close>

lemma collect_names_matches:
  "list_all wf_attribute (elems ''attribute'' ks) \<Longrightarrow>
   list_all2 attribute_matches (collect_names ks) (elems ''attribute'' ks)"
proof (induction ks)
  case Nil
  show ?case by simp
next
  case (Cons k ks)
  show ?case
  proof (cases "node_name k = ''attribute''")
    case True
    with Cons.prems have wf: "wf_attribute k" and rest: "list_all wf_attribute (elems ''attribute'' ks)"
      by (simp_all add: elems_Cons)
    from wf obtain v where "last_value ''name'' (properties k) = Some v"
      using wf_attribute_value by blast
    with True Cons.IH [OF rest] show ?thesis
      by (simp add: elems_Cons attribute_matches_def)
  next
    case False
    with Cons show ?thesis by (simp add: elems_Cons)
  qed
qed

lemma built_channel_matches:
  "wf_channel m \<Longrightarrow> chns s chn = Some (built_channel dev m) \<Longrightarrow> channel_matches s dev chn m"
  by (simp add: channel_matches_def built_channel_fields collect_names_matches wf_channel_def)

lemma put_channels_below: "a < b \<Longrightarrow> put_channels dev b ks h a = h a"
  by (induction ks arbitrary: b h) simp_all

lemma put_channels_built:
  "list_all2 (\<lambda>chn m. put_channels dev b ks h chn = Some (built_channel dev m))
     [b ..< b + length (elems ''channel'' ks)] (elems ''channel'' ks)"
proof (induction ks arbitrary: b h)
  case Nil
  show ?case by simp
next
  case (Cons k ks)
  show ?case
  proof (cases "node_name k = ''channel''")
    case True
    have "list_all2 (\<lambda>chn m. put_channels dev (Suc b) ks (h(b \<mapsto> built_channel dev k)) chn
            = Some (built_channel dev m))
        [Suc b ..< Suc b + length (elems ''channel'' ks)] (elems ''channel'' ks)"
      by (rule Cons.IH)
    with True show ?thesis
      by (simp add: elems_Cons upt_add_Suc put_channels_below del: upt_Suc)
  next
    case False
    with Cons.IH [of b h] show ?thesis by (simp add: elems_Cons)
  qed
qed

lemma put_device_below:
  "a < brk s \<Longrightarrow> chns (put_device ctx k s) a = chns s a \<and> devs (put_device ctx k s) a = devs s a"
  by (simp add: put_device_def put_channels_below)

lemma put_devices_brk: "brk s \<le> brk (put_devices ctx ks s)"
proof (induction ks arbitrary: s)
  case Nil
  show ?case by simp
next
  case (Cons k ks)
  have "brk s \<le> brk (put_device ctx k s)" by simp
  also have "\<dots> \<le> brk (put_devices ctx ks (put_device ctx k s))" by (rule Cons.IH)
  finally show ?case using Cons.IH [of s] by simp
qed

lemma put_devices_below:
  "a < brk s \<Longrightarrow>
   chns (put_devices ctx ks s) a = chns s a \<and> devs (put_devices ctx ks s) a = devs s a"
proof (induction ks arbitrary: s)
  case Nil
  show ?case by simp
next
  case (Cons k ks)
  show ?case
  proof (cases "node_name k = ''device''")
    case True
    from Cons.prems have "a < brk (put_device ctx k s)" by simp
    from Cons.IH [OF this] put_device_below [OF Cons.prems, of ctx k] True
    show ?thesis by simp
  next
    case False
    with Cons.IH [OF Cons.prems] show ?thesis by simp
  qed
qed

lemma channel_matches_same:
  "chns s' chn = chns s chn \<Longrightarrow> channel_matches s' dev chn m = channel_matches s dev chn m"
  by (simp add: channel_matches_def)

lemma device_matches_Some:
  "devs s dev = Some d \<Longrightarrow>
   device_matches s ctx dev n \<longleftrightarrow>
     dev_ctx d = Some ctx \<and> dev_id d = last_value ''id'' (properties n) \<and>
     dev_name d = last_value ''name'' (properties n) \<and>
     list_all2 attribute_matches (dev_attrs d) (elems ''attribute'' (children n)) \<and>
     list_all2 (channel_matches s dev) (dev_channels d) (elems ''channel'' (children n))"
  by (simp add: device_matches_def)

lemma device_matches_frame:
  assumes m: "device_matches s ctx dev n" and d: "devs s dev = Some d"
    and cs: "\<forall>chn\<in>set (dev_channels d). chns s' chn = chns s chn"
    and dv: "devs s' dev = Some d"
  shows "device_matches s' ctx dev n"
proof -
  from m have f: "dev_ctx d = Some ctx \<and> dev_id d = last_value ''id'' (properties n) \<and>
     dev_name d = last_value ''name'' (properties n) \<and>
     list_all2 attribute_matches (dev_attrs d) (elems ''attribute'' (children n))"
    and c: "list_all2 (channel_matches s dev) (dev_channels d) (elems ''channel'' (children n))"
    unfolding device_matches_Some [OF d] by simp_all
  from c have c': "list_all2 (channel_matches s' dev) (dev_channels d) (elems ''channel'' (children n))"
  proof (rule list.rel_mono_strong)
    fix chn m
    assume chn: "chn \<in> set (dev_channels d)" and old: "channel_matches s dev chn m"
    from cs chn have "chns s' chn = chns s chn" by (rule bspec)
    from channel_matches_same [OF this] old show "channel_matches s' dev chn m"
      by (rule iffD2)
  qed
  show ?thesis
    unfolding device_matches_Some [OF dv] using f c' by simp
qed

lemma put_device_matches:
  assumes "wf_device k"
  shows "device_matches (put_device ctx k s) ctx (brk s) k"
proof -
  let ?s1 = "put_device ctx k s"
  let ?M = "length (elems ''channel'' (children k))"
  from assms have wc: "list_all wf_channel (elems ''channel'' (children k))"
    and wa: "list_all wf_attribute (elems ''attribute'' (children k))"
    by (simp_all add: wf_device_def)
  have dv: "devs ?s1 (brk s) = Some (built_device ctx (brk s) k)"
    by (simp add: put_device_def)
  have "list_all2 (\<lambda>chn m. chns ?s1 chn = Some (built_channel (brk s) m))
     [Suc (brk s) ..< Suc (brk s) + ?M] (elems ''channel'' (children k))"
    using put_channels_built [of "brk s" "Suc (brk s)" "children k" "chns s"]
    by (simp add: put_device_def)
  then have "list_all2 (channel_matches ?s1 (brk s))
     [Suc (brk s) ..< Suc (brk s) + ?M] (elems ''channel'' (children k))"
  proof (rule list.rel_mono_strong)
    fix chn m
    assume "m \<in> set (elems ''channel'' (children k))"
      and "chns ?s1 chn = Some (built_channel (brk s) m)"
    with wc show "channel_matches ?s1 (brk s) chn m"
      by (simp add: built_channel_matches list_all_iff)
  qed
  with dv wa show ?thesis
    by (simp add: device_matches_def built_device_fields collect_names_matches)
qed

lemma put_devices_matches:
  "list_all wf_device (elems ''device'' ks) \<Longrightarrow>
   list_all2 (device_matches (put_devices ctx ks s) ctx) (device_addrs (brk s) ks)
     (elems ''device'' ks)"
proof (induction ks arbitrary: s)
  case Nil
  show ?case by simp
next
  case (Cons k ks)
  show ?case
  proof (cases "node_name k = ''device''")
    case True
    with Cons.prems have wf: "wf_device k" and rest: "list_all wf_device (elems ''device'' ks)"
      by (simp_all add: elems_Cons)
    let ?s1 = "put_device ctx k s"
    let ?s2 = "put_devices ctx ks ?s1"
    let ?d = "built_device ctx (brk s) k"
    have b1: "brk ?s1 = Suc (brk s) + length (elems ''channel'' (children k))" by simp
    have dv: "devs ?s1 (brk s) = Some ?d" by (simp add: put_device_def)
    have "device_matches ?s2 ctx (brk s) k"
    proof (rule device_matches_frame [OF put_device_matches [OF wf] dv])
      show "\<forall>chn\<in>set (dev_channels ?d). chns ?s2 chn = chns ?s1 chn"
      proof
        fix chn assume "chn \<in> set (dev_channels ?d)"
        then have "chn < brk ?s1"
          unfolding built_device_fields b1 by (simp only: set_upt atLeastLessThan_iff)
        then show "chns ?s2 chn = chns ?s1 chn" by (simp only: put_devices_below)
      qed
      have "brk s < brk ?s1" unfolding b1 by simp
      then have "devs ?s2 (brk s) = devs ?s1 (brk s)"
        by (simp only: put_devices_below)
      with dv show "devs ?s2 (brk s) = Some ?d" by simp
    qed
    moreover have "list_all2 (device_matches ?s2 ctx) (device_addrs (brk ?s1) ks) (elems ''device'' ks)"
      by (rule Cons.IH [OF rest])
    ultimately show ?thesis
      using True by (simp add: elems_Cons)
  next
    case False
    with Cons show ?thesis by (simp add: elems_Cons)
  qed
qed

lemma device_matches_same:
  assumes "chns s' = chns s" and "devs s' = devs s"
  shows "device_matches s' = device_matches s"
proof -
  have cm: "channel_matches s' = channel_matches s"
    by (intro ext) (simp add: channel_matches_def assms)
  show ?thesis
    by (intro ext) (simp only: device_matches_def cm assms(2))
qed

lemma put_context_matches:
  assumes "wf_context root"
  shows "context_matches ((put_context root s)\<lparr>trace := t\<rparr>) (brk s) root"
proof -
  let ?s0 = "s\<lparr>brk := Suc (brk s)\<rparr>"
  let ?s1 = "put_devices (brk s) (children root) ?s0"
  let ?s' = "(put_context root s)\<lparr>trace := t\<rparr>"
  from assms have wf: "list_all wf_device (elems ''device'' (children root))"
    by (simp add: wf_context_def)
  have same: "device_matches ?s' = device_matches ?s1"
    by (rule device_matches_same) (simp_all add: put_context_def)
  have "list_all2 (device_matches ?s1 (brk s)) (device_addrs (brk ?s0) (children root))
     (elems ''device'' (children root))"
    by (rule put_devices_matches [OF wf])
  moreover have "ctxs ?s' (brk s) =
     Some \<lparr>ctx_name = Some ''xml'', ctx_ops = Some Xml_ops,
       ctx_devices = device_addrs (Suc (brk s)) (children root)\<rparr>"
    by (simp add: put_context_def)
  ultimately show ?thesis
    unfolding context_matches_def same by simp
qed

section \<open>The claims\<close>

text \<open>
  C6. The attribute collector, for a channel and for a device. A node with no \<open>name\<close>
  property: the call returns \<open>-1\<close> after the error line \<open>Incomplete attribute\<close>, and
  the owner's attribute list (the whole heap of owners) is as before. A node whose
  \<open>name\<close> properties carry a value, when no allocation fails: the call returns \<open>0\<close> and
  the owner's list is the old list with the name appended at its end, whether or not the
  list held that name already.
\<close>

theorem attribute_collector:
  "(chns s chn = Some c \<and> props_named ''name'' (properties n) = [] \<longrightarrow>
      (\<exists>s'. add_attr_to_channel chn n s = Inr (- 1, s') \<and> chns s' = chns s \<and>
         last (trace s') = ERROR ''Incomplete attribute in channel %s'' [chn_id c]))
   \<and> (chns s chn = Some c \<and> allocs s = [] \<and> wf_attribute n \<longrightarrow>
      (\<exists>s' nm. add_attr_to_channel chn n s = Inr (0, s') \<and>
         last_value ''name'' (properties n) = Some nm \<and>
         chns s' = (chns s)(chn \<mapsto> c\<lparr>chn_attrs := chn_attrs c @ [nm]\<rparr>)))
   \<and> (devs s dev = Some d \<and> props_named ''name'' (properties n) = [] \<longrightarrow>
      (\<exists>s'. add_attr_to_device dev n s = Inr (- 1, s') \<and> devs s' = devs s \<and>
         last (trace s') = ERROR ''Incomplete attribute in device %s'' [dev_id d]))
   \<and> (devs s dev = Some d \<and> allocs s = [] \<and> wf_attribute n \<longrightarrow>
      (\<exists>s' nm. add_attr_to_device dev n s = Inr (0, s') \<and>
         last_value ''name'' (properties n) = Some nm \<and>
         devs s' = (devs s)(dev \<mapsto> d\<lparr>dev_attrs := dev_attrs d @ [nm]\<rparr>)))"
proof (intro conjI impI)
  assume "chns s chn = Some c \<and> props_named ''name'' (properties n) = []"
  then show "\<exists>s'. add_attr_to_channel chn n s = Inr (- 1, s') \<and> chns s' = chns s \<and>
         last (trace s') = ERROR ''Incomplete attribute in channel %s'' [chn_id c]"
    by (simp add: add_attr_to_channel_unnamed)
next
  assume a: "chns s chn = Some c \<and> allocs s = [] \<and> wf_attribute n"
  then obtain nm where "last_value ''name'' (properties n) = Some nm"
    using wf_attribute_value by blast
  with a show "\<exists>s' nm. add_attr_to_channel chn n s = Inr (0, s') \<and>
         last_value ''name'' (properties n) = Some nm \<and>
         chns s' = (chns s)(chn \<mapsto> c\<lparr>chn_attrs := chn_attrs c @ [nm]\<rparr>)"
    by (simp add: add_attr_to_channel_run)
next
  assume "devs s dev = Some d \<and> props_named ''name'' (properties n) = []"
  then show "\<exists>s'. add_attr_to_device dev n s = Inr (- 1, s') \<and> devs s' = devs s \<and>
         last (trace s') = ERROR ''Incomplete attribute in device %s'' [dev_id d]"
    by (simp add: add_attr_to_device_unnamed)
next
  assume a: "devs s dev = Some d \<and> allocs s = [] \<and> wf_attribute n"
  then obtain nm where "last_value ''name'' (properties n) = Some nm"
    using wf_attribute_value by blast
  with a show "\<exists>s' nm. add_attr_to_device dev n s = Inr (0, s') \<and>
         last_value ''name'' (properties n) = Some nm \<and>
         devs s' = (devs s)(dev \<mapsto> d\<lparr>dev_attrs := dev_attrs d @ [nm]\<rparr>)"
    by (simp add: add_attr_to_device_run)
qed

theorem attribute_collector_witness:
  "(\<exists>s'. add_attr_to_channel 0 (XmlNode ''attribute'' [XmlAttr ''label'' (Some ''x'')] []) owner_state = Inr (- 1, s') \<and>
       chns s' = chns owner_state)
   \<and> (\<exists>s'. add_attr_to_channel 0 (XmlNode ''attribute'' [XmlAttr ''name'' (Some ''scale'')] []) owner_state = Inr (0, s') \<and>
       chns s' = (chns owner_state)(0 \<mapsto> owner_channel\<lparr>chn_attrs := [''scale'', ''scale'']\<rparr>))
   \<and> (\<exists>s'. add_attr_to_device 1 (XmlNode ''attribute'' [XmlAttr ''label'' (Some ''x'')] []) owner_state = Inr (- 1, s') \<and>
       devs s' = devs owner_state)
   \<and> (\<exists>s'. add_attr_to_device 1 (XmlNode ''attribute'' [XmlAttr ''name'' (Some ''scale'')] []) owner_state = Inr (0, s') \<and>
       devs s' = (devs owner_state)(1 \<mapsto> owner_device\<lparr>dev_attrs := [''scale'', ''scale'']\<rparr>))"
proof -
  have own: "chns owner_state 0 = Some owner_channel" "devs owner_state 1 = Some owner_device"
    "allocs owner_state = []"
    by (simp_all add: owner_state_def initial_state_def)
  have unnamed: "props_named ''name'' (properties (XmlNode ''attribute'' [XmlAttr ''label'' (Some ''x'')] [])) = []"
    by (simp add: props_named_def)
  have named: "wf_attribute (XmlNode ''attribute'' [XmlAttr ''name'' (Some ''scale'')] [])"
    "last_value ''name'' (properties (XmlNode ''attribute'' [XmlAttr ''name'' (Some ''scale'')] [])) = Some ''scale''"
    by (simp_all add: wf_attribute_def props_named_def valued_def last_value_def)
  have attrs: "chn_attrs owner_channel = [''scale'']" "dev_attrs owner_device = [''scale'']"
    by (simp_all add: owner_channel_def owner_device_def)
  show ?thesis
    using attribute_collector [of owner_state 0 owner_channel
            "XmlNode ''attribute'' [XmlAttr ''label'' (Some ''x'')] []" 1 owner_device]
          attribute_collector [of owner_state 0 owner_channel
            "XmlNode ''attribute'' [XmlAttr ''name'' (Some ''scale'')] []" 1 owner_device]
          own unnamed named attrs
    by auto
qed

text \<open>
  C7. A property name that occurs more than once on a node: the value kept is that of the
  last occurrence. For the collector, the name appended to the owner's list is the value
  of the last \<open>name\<close> property; for a channel and for a device, the \<open>id\<close> and the
  \<open>name\<close> recorded are the values of the last \<open>id\<close> and the last \<open>name\<close> property.
  The build goes on (the call succeeds), and a node that carries nothing but such
  properties leaves no line in the log. No allocation fails here.
\<close>

theorem last_occurrence_wins:
  "(chns s chn = Some c \<and> allocs s = [] \<and> wf_attribute n \<longrightarrow>
      (\<exists>s' c'. add_attr_to_channel chn n s = Inr (0, s') \<and> chns s' chn = Some c' \<and>
         Some (last (chn_attrs c')) = attr_children (last (props_named ''name'' (properties n))) \<and>
         ((\<forall>a\<in>set (properties n). attr_name a = ''name'') \<longrightarrow> trace s' = trace s)))
   \<and> (devs s dev = Some d \<and> allocs s = [] \<and> wf_attribute n \<longrightarrow>
      (\<exists>s' d'. add_attr_to_device dev n s = Inr (0, s') \<and> devs s' dev = Some d' \<and>
         Some (last (dev_attrs d')) = attr_children (last (props_named ''name'' (properties n))) \<and>
         ((\<forall>a\<in>set (properties n). attr_name a = ''name'') \<longrightarrow> trace s' = trace s)))
   \<and> (allocs s = [] \<and> wf_channel n \<longrightarrow>
      (\<exists>s' c'. create_channel dev n s = Inr (Some (brk s), s') \<and> chns s' (brk s) = Some c' \<and>
         chn_id c' = attr_children (last (props_named ''id'' (properties n))) \<and>
         (props_named ''name'' (properties n) \<noteq> [] \<longrightarrow>
            chn_name c' = attr_children (last (props_named ''name'' (properties n)))) \<and>
         ((\<forall>a\<in>set (properties n). attr_name a = ''name'' \<or> attr_name a = ''id'') \<and> children n = []
            \<longrightarrow> trace s' = trace s)))
   \<and> (allocs s = [] \<and> wf_device n \<longrightarrow>
      (\<exists>s' d'. create_device ctx n s = Inr (Some (brk s), s') \<and> devs s' (brk s) = Some d' \<and>
         dev_id d' = attr_children (last (props_named ''id'' (properties n))) \<and>
         (props_named ''name'' (properties n) \<noteq> [] \<longrightarrow>
            dev_name d' = attr_children (last (props_named ''name'' (properties n)))) \<and>
         ((\<forall>a\<in>set (properties n). attr_name a = ''name'' \<or> attr_name a = ''id'') \<and> children n = []
            \<longrightarrow> trace s' = trace s)))"
proof (intro conjI impI)
  assume a: "chns s chn = Some c \<and> allocs s = [] \<and> wf_attribute n"
  then obtain nm where nm: "last_value ''name'' (properties n) = Some nm"
    using wf_attribute_value by blast
  from a have ne: "props_named ''name'' (properties n) \<noteq> []"
    by (simp add: wf_attribute_def)
  show "\<exists>s' c'. add_attr_to_channel chn n s = Inr (0, s') \<and> chns s' chn = Some c' \<and>
         Some (last (chn_attrs c')) = attr_children (last (props_named ''name'' (properties n))) \<and>
         ((\<forall>a\<in>set (properties n). attr_name a = ''name'') \<longrightarrow> trace s' = trace s)"
    using a nm last_value_last [OF ne]
    by (simp add: add_attr_to_channel_run attr_chn_warnings_named)
next
  assume a: "devs s dev = Some d \<and> allocs s = [] \<and> wf_attribute n"
  then obtain nm where nm: "last_value ''name'' (properties n) = Some nm"
    using wf_attribute_value by blast
  from a have ne: "props_named ''name'' (properties n) \<noteq> []"
    by (simp add: wf_attribute_def)
  show "\<exists>s' d'. add_attr_to_device dev n s = Inr (0, s') \<and> devs s' dev = Some d' \<and>
         Some (last (dev_attrs d')) = attr_children (last (props_named ''name'' (properties n))) \<and>
         ((\<forall>a\<in>set (properties n). attr_name a = ''name'') \<longrightarrow> trace s' = trace s)"
    using a nm last_value_last [OF ne]
    by (simp add: add_attr_to_device_run attr_dev_warnings_named)
next
  assume a: "allocs s = [] \<and> wf_channel n"
  then have ne: "props_named ''id'' (properties n) \<noteq> []"
    by (simp add: wf_channel_def)
  show "\<exists>s' c'. create_channel dev n s = Inr (Some (brk s), s') \<and> chns s' (brk s) = Some c' \<and>
         chn_id c' = attr_children (last (props_named ''id'' (properties n))) \<and>
         (props_named ''name'' (properties n) \<noteq> [] \<longrightarrow>
            chn_name c' = attr_children (last (props_named ''name'' (properties n)))) \<and>
         ((\<forall>a\<in>set (properties n). attr_name a = ''name'' \<or> attr_name a = ''id'') \<and> children n = []
            \<longrightarrow> trace s' = trace s)"
    using a last_value_last [OF ne]
    by (simp add: create_channel_run built_channel_fields last_value_last channel_warnings_def
          chan_props_warnings_known chan_children_warnings_def)
next
  assume a: "allocs s = [] \<and> wf_device n"
  then have ne: "props_named ''id'' (properties n) \<noteq> []"
    by (simp add: wf_device_def)
  show "\<exists>s' d'. create_device ctx n s = Inr (Some (brk s), s') \<and> devs s' (brk s) = Some d' \<and>
         dev_id d' = attr_children (last (props_named ''id'' (properties n))) \<and>
         (props_named ''name'' (properties n) \<noteq> [] \<longrightarrow>
            dev_name d' = attr_children (last (props_named ''name'' (properties n)))) \<and>
         ((\<forall>a\<in>set (properties n). attr_name a = ''name'' \<or> attr_name a = ''id'') \<and> children n = []
            \<longrightarrow> trace s' = trace s)"
    using a last_value_last [OF ne]
    by (simp add: create_device_run put_device_devs built_device_fields last_value_last
          device_warnings_def dev_props_warnings_known dev_children_warnings_def)
qed

theorem last_occurrence_wins_witness:
  "(\<exists>s' c'. add_attr_to_channel 0 twice_named_attribute owner_state = Inr (0, s') \<and>
       chns s' 0 = Some c' \<and> last (chn_attrs c') = ''offset'' \<and> trace s' = trace owner_state)
   \<and> (\<exists>s' d'. add_attr_to_device 1 twice_named_attribute owner_state = Inr (0, s') \<and>
       devs s' 1 = Some d' \<and> last (dev_attrs d') = ''offset'' \<and> trace s' = trace owner_state)
   \<and> (\<exists>s' c'. create_channel 1 (twice_named_element ''channel'') owner_state = Inr (Some 2, s') \<and>
       chns s' 2 = Some c' \<and> chn_id c' = Some ''b'' \<and> chn_name c' = Some ''y'' \<and>
       trace s' = trace owner_state)
   \<and> (\<exists>s' d'. create_device 7 (twice_named_element ''device'') owner_state = Inr (Some 2, s') \<and>
       devs s' 2 = Some d' \<and> dev_id d' = Some ''b'' \<and> dev_name d' = Some ''y'' \<and>
       trace s' = trace owner_state)"
proof -
  have own: "chns owner_state 0 = Some owner_channel" "devs owner_state 1 = Some owner_device"
    "allocs owner_state = []" "brk owner_state = 2"
    by (simp_all add: owner_state_def initial_state_def)
  have wf: "wf_attribute twice_named_attribute" "wf_channel (twice_named_element ''channel'')"
    "wf_device (twice_named_element ''device'')"
    by (simp_all add: wf_attribute_def wf_channel_def wf_device_def twice_named_attribute_def
          twice_named_element_def props_named_def valued_def elems_def)
  have vals:
    "props_named ''name'' (properties twice_named_attribute) =
       [XmlAttr ''name'' (Some ''scale''), XmlAttr ''name'' (Some ''offset'')]"
    "props_named ''id'' (properties (twice_named_element tag)) =
       [XmlAttr ''id'' (Some ''a''), XmlAttr ''id'' (Some ''b'')]"
    "props_named ''name'' (properties (twice_named_element tag)) =
       [XmlAttr ''name'' (Some ''x''), XmlAttr ''name'' (Some ''y'')]"
    "children (twice_named_element tag) = []"
    "\<forall>a\<in>set (properties twice_named_attribute). attr_name a = ''name''"
    "\<forall>a\<in>set (properties (twice_named_element tag)). attr_name a = ''name'' \<or> attr_name a = ''id''"
    for tag
    by (simp_all add: twice_named_attribute_def twice_named_element_def props_named_def)
  show ?thesis
    using last_occurrence_wins [of owner_state 0 owner_channel twice_named_attribute 1 owner_device 7]
      last_occurrence_wins [of owner_state 0 owner_channel "twice_named_element ''channel''" 1
        owner_device 7]
      last_occurrence_wins [of owner_state 0 owner_channel "twice_named_element ''device''" 1
        owner_device 7]
      own wf vals
    by (auto simp del: One_nat_def)
qed

text \<open>
  C3. A root element whose tag is not exactly \<open>context\<close>: the context builder returns
  no result, whatever the rest of the document and whatever the allocator does. The only
  allocation asked for is the one of the context object; when it succeeds the object is
  released again and the one log line is the error \<open>Unrecognized XML file\<close>. The heaps
  of devices and channels are as before: no device child is processed.
\<close>

theorem root_tag_validation:
  assumes "node_name (xmlDocGetRootElement doc) \<noteq> ''context''"
  shows "\<exists>s'. iio_create_xml_context_helper doc s = Inr (None, s') \<and>
           chns s' = chns s \<and> devs s' = devs s \<and> allocs s' = tl (allocs s) \<and>
           (if fst (alloc_ok s)
            then ctxs s' = (ctxs s)(brk s := None) \<and> brk s' = Suc (brk s) \<and>
                 trace s' = trace s @ [ERROR ''Unrecognized XML file'' []]
            else ctxs s' = ctxs s \<and> brk s' = brk s \<and> trace s' = trace s)"
  using assms
  by (cases "alloc_ok s")
     (auto simp: iio_create_xml_context_helper_def calloc_context_def free_ctx_def Let_def
        dest!: alloc_ok_state)

theorem root_tag_validation_witness:
  "\<exists>s'. iio_create_xml_context_helper wrong_root_doc initial_state = Inr (None, s') \<and>
      chns s' = Map.empty \<and> devs s' = Map.empty \<and> ctxs s' = Map.empty \<and> brk s' = 1 \<and>
      trace s' = [ERROR ''Unrecognized XML file'' []]"
proof -
  have "node_name (xmlDocGetRootElement wrong_root_doc) \<noteq> ''context''"
    by (simp add: wrong_root_doc_def)
  from root_tag_validation [OF this, of initial_state] show ?thesis
    by (auto simp: initial_state_def alloc_ok_def)
qed

text \<open>
  C10. The builders read \<^verbatim>\<open>attr->children->content\<close> with no test of
  \<^verbatim>\<open>attr->children\<close>; in the model the read of a property without a value node is the
  fault \<open>NullDeref\<close>. When every property of every node of the tree carries a value, no
  run of the collectors, of the channel and device builders or of the context builder
  ends in that fault, whatever the state and the allocator. A property without a value
  node is outside this precondition, and the channel builder, which reads the value of
  every property, does fault on it.
\<close>

theorem property_reads_defined:
  "(all_valued n \<longrightarrow>
      add_attr_to_channel chn n s \<noteq> Inl NullDeref \<and> add_attr_to_device dev n s \<noteq> Inl NullDeref \<and>
      create_channel dev n s \<noteq> Inl NullDeref \<and> create_device ctx n s \<noteq> Inl NullDeref)
   \<and> (all_valued (xmlDocGetRootElement doc) \<longrightarrow>
        iio_create_xml_context_helper doc s \<noteq> Inl NullDeref)
   \<and> (chns s chn = Some c \<and> \<not> valued ps \<longrightarrow> create_channel_props chn ps s = Inl NullDeref)"
  using add_attr_to_channel_no_null [of n chn s] add_attr_to_device_no_null [of n dev s]
    create_channel_no_null [of n dev s] create_device_no_null [of n ctx s]
    helper_no_null [of doc s] create_channel_props_null [of s chn c ps] all_valued_node [of n]
  by blast

theorem property_reads_defined_witness:
  "iio_create_xml_context_helper scenario_A initial_state \<noteq> Inl NullDeref
   \<and> create_device 0 (hd (children (xmlDocGetRootElement scenario_A))) initial_state \<noteq> Inl NullDeref
   \<and> create_channel_props 0 [XmlAttr ''id'' (Some ''voltage0''), XmlAttr ''type'' None] owner_state
        = Inl NullDeref"
proof -
  have v: "all_valued (xmlDocGetRootElement scenario_A)"
    "all_valued (hd (children (xmlDocGetRootElement scenario_A)))"
    by (simp_all add: scenario_A_def valued_def)
  have n: "chns owner_state 0 = Some owner_channel"
    "\<not> valued [XmlAttr ''id'' (Some ''voltage0''), XmlAttr ''type'' None]"
    by (simp_all add: owner_state_def initial_state_def valued_def)
  show ?thesis
    using property_reads_defined [of "hd (children (xmlDocGetRootElement scenario_A))" 0
        initial_state 0 0 scenario_A]
      property_reads_defined [of "hd (children (xmlDocGetRootElement scenario_A))" 0
        owner_state 0 0 scenario_A owner_channel
        "[XmlAttr ''id'' (Some ''voltage0''), XmlAttr ''type'' None]"]
      v n
    by blast
qed

text \<open>
  C4. The two entry points, \<open>iio_create_xml_context\<close> on a file and
  \<open>iio_create_xml_context_mem\<close> on a buffer. When the parser returns no document, the
  entry point logs the error and returns no result; the state is otherwise as before, so
  the context builder has not run. When the parser returns a document and the builder
  returns, with a context or with none, the entry point returns what the builder returned
  and leaves the heaps as the builder left them; the parser calls of the whole run are
  one \<^verbatim>\<open>xmlFreeDoc\<close> of that document followed by \<^verbatim>\<open>xmlCleanupParser\<close>, the
  builder itself making none. So the document is released exactly once, and a failure
  returns no context.
\<close>

theorem entry_points:
  "(xmlReadFile xml_file [XML_PARSE_DTDVALID] = None \<longrightarrow>
      iio_create_xml_context xmlReadFile xml_file s =
        Inr (None, emit (ERROR ''Unable to parse XML file'' []) s))
   \<and> (xmlReadFile xml_file [XML_PARSE_DTDVALID] = Some doc \<and>
        iio_create_xml_context_helper doc s = Inr (r, s1) \<longrightarrow>
      (\<exists>s2. iio_create_xml_context xmlReadFile xml_file s = Inr (r, s2) \<and>
         chns s2 = chns s1 \<and> devs s2 = devs s1 \<and> ctxs s2 = ctxs s1 \<and>
         parser_calls (trace s2) = parser_calls (trace s) @ [XmlFreeDoc doc, XmlCleanupParser]))
   \<and> (xmlReadMemory xml len [XML_PARSE_DTDVALID] = None \<longrightarrow>
      iio_create_xml_context_mem xmlReadMemory xml len s =
        Inr (None, emit (ERROR ''Unable to parse XML file'' []) s))
   \<and> (xmlReadMemory xml len [XML_PARSE_DTDVALID] = Some doc \<and>
        iio_create_xml_context_helper doc s = Inr (r, s1) \<longrightarrow>
      (\<exists>s2. iio_create_xml_context_mem xmlReadMemory xml len s = Inr (r, s2) \<and>
         chns s2 = chns s1 \<and> devs s2 = devs s1 \<and> ctxs s2 = ctxs s1 \<and>
         parser_calls (trace s2) = parser_calls (trace s) @ [XmlFreeDoc doc, XmlCleanupParser]))"
proof -
  have rel: "parser_calls (trace (emit XmlCleanupParser (emit (XmlFreeDoc doc) s1))) =
      parser_calls (trace s) @ [XmlFreeDoc doc, XmlCleanupParser]"
    if "iio_create_xml_context_helper doc s = Inr (r, s1)"
    using helper_calls [OF that] by (simp add: parser_calls_def is_log_def)
  show ?thesis
    using rel by (auto simp: iio_create_xml_context_def iio_create_xml_context_mem_def)
qed

theorem entry_points_witness:
  "iio_create_xml_context one_file ''none.xml'' initial_state =
     Inr (None, emit (ERROR ''Unable to parse XML file'' []) initial_state)
   \<and> (\<exists>s2. iio_create_xml_context one_file ''iio.xml'' initial_state = Inr (Some 0, s2) \<and>
        parser_calls (trace s2) = [XmlFreeDoc scenario_A, XmlCleanupParser])
   \<and> iio_create_xml_context_mem one_buffer '''' 0 initial_state =
        Inr (None, emit (ERROR ''Unable to parse XML file'' []) initial_state)
   \<and> (\<exists>s2. iio_create_xml_context_mem one_buffer ''<Context/>'' 10 initial_state = Inr (None, s2) \<and>
        parser_calls (trace s2) = [XmlFreeDoc wrong_root_doc, XmlCleanupParser])"
proof -
  have wf: "wf_context (xmlDocGetRootElement scenario_A)"
    by (simp add: scenario_A_def wf_context_def wf_device_def wf_channel_def wf_attribute_def
          elems_def props_named_def valued_def)
  have i: "allocs initial_state = []" "brk initial_state = 0" "trace initial_state = []"
    by (simp_all add: initial_state_def)
  from helper_run [OF i(1) wf] obtain s1 where
    a: "iio_create_xml_context_helper scenario_A initial_state = Inr (Some 0, s1)"
    by (simp add: i)
  obtain s1' where
    b: "iio_create_xml_context_helper wrong_root_doc initial_state = Inr (None, s1')"
    by (simp add: iio_create_xml_context_helper_def calloc_context_nil wrong_root_doc_def i)
  have p: "one_file ''none.xml'' [XML_PARSE_DTDVALID] = None"
    "one_file ''iio.xml'' [XML_PARSE_DTDVALID] = Some scenario_A"
    "one_buffer '''' 0 [XML_PARSE_DTDVALID] = None"
    "one_buffer ''<Context/>'' 10 [XML_PARSE_DTDVALID] = Some wrong_root_doc"
    by (simp_all add: one_file_def one_buffer_def)
  show ?thesis
    using entry_points [of one_file "''none.xml''" initial_state scenario_A "Some 0" s1
        one_buffer "''''" 0]
      entry_points [of one_file "''iio.xml''" initial_state scenario_A "Some 0" s1
        one_buffer "''''" 0]
      entry_points [of one_file "''iio.xml''" initial_state wrong_root_doc None s1'
        one_buffer "''<Context/>''" 10]
      a b p i
    by (auto simp: parser_calls_def)
qed

text \<open>
  C5, as the code has it. For every channel that \<open>create_channel\<close> returns: the
  direction is output exactly when some \<open>type\<close> property of the node has the value
  \<open>output\<close>. So a node with no \<open>type\<close> property is an input channel, and so is a
  node none of whose \<open>type\<close> properties says \<open>output\<close>. Every \<open>type\<close> property
  whose value is neither \<open>output\<close> nor \<open>input\<close> leaves the warning
  \<open>Unknown channel type\<close> in the log of the call, and the build goes on. The direction
  is never reset: \<open>type="output"\<close> followed by a second \<open>type\<close> of another value is
  an output channel, with the warning, which is where the claim as written fails.
\<close>

theorem channel_direction:
  assumes "create_channel dev n s = Inr (Some chn, s')"
  shows "\<exists>c. chns s' chn = Some c \<and>
     (is_output c \<longleftrightarrow>
        (\<exists>a\<in>set (properties n). attr_name a = ''type'' \<and> attr_children a = Some ''output'')) \<and>
     (\<forall>a\<in>set (properties n).
        attr_name a = ''type'' \<and> attr_children a \<noteq> Some ''output'' \<and>
        attr_children a \<noteq> Some ''input'' \<longrightarrow>
        WARNING ''Unknown channel type %s'' [attr_children a]
          \<in> set (drop (length (trace s)) (trace s')))"
proof -
  from create_channel_frame [OF assms] obtain c w where
    "chn = brk s" "chns s' (brk s) = Some c" "is_output c = says_output (properties n)"
    "trace s' = trace s @ chan_props_warnings (properties n) @ w"
    by auto
  then show ?thesis
    by (auto simp: says_output_iff unknown_type_warned)
qed

theorem channel_direction_witness:
  "\<exists>s' c. create_channel 1 two_types_channel initial_state = Inr (Some 0, s') \<and>
     chns s' 0 = Some c \<and> is_output c \<and>
     WARNING ''Unknown channel type %s'' [Some ''garbage''] \<in> set (trace s')"
proof -
  have i: "allocs initial_state = []" "brk initial_state = 0" "trace initial_state = []"
    by (simp_all add: initial_state_def)
  have wf: "wf_channel two_types_channel"
    by (simp add: wf_channel_def two_types_channel_def props_named_def valued_def elems_def)
  from create_channel_run [OF i(1) wf, of 1] obtain s' where
    run: "create_channel 1 two_types_channel initial_state = Inr (Some 0, s')"
    by (simp add: i)
  from channel_direction [OF run] i show ?thesis
    using run by (fastforce simp: two_types_channel_def)
qed

theorem channel_direction_counterexample:
  "built_direction (create_channel 1 two_types_channel initial_state) = Some True \<and>
   logged (create_channel 1 two_types_channel initial_state) =
     [WARNING ''Unknown channel type %s'' [Some ''garbage'']]"
proof -
  have i: "allocs initial_state = []" "brk initial_state = 0" "trace initial_state = []"
    by (simp_all add: initial_state_def)
  have wf: "wf_channel two_types_channel"
    by (simp add: wf_channel_def two_types_channel_def props_named_def valued_def elems_def)
  show ?thesis
    by (simp add: create_channel_run [OF i(1) wf] built_direction_def logged_def i
          built_channel_fields says_output_def channel_warnings_def)
       (simp add: two_types_channel_def chan_props_warnings_def chan_children_warnings_def)
qed

text \<open>
  C9. Back-references. In every context that the builder returns, whatever the document,
  the state and the allocator: each device of the context's list is allocated and its
  \<open>dev_ctx\<close> is the address of that context; each channel of a device's list is
  allocated and its \<open>chn_dev\<close> is the address of that device. The back-reference is
  written right after the object is allocated, and the scans of properties and of
  children that follow leave it as it is: whenever one of them returns, the field has the
  value it had when the scan began.
\<close>

theorem back_references:
  "(iio_create_xml_context_helper doc s = Inr (Some ctx, s') \<longrightarrow>
      (\<exists>c. ctxs s' ctx = Some c \<and>
         (\<forall>dev\<in>set (ctx_devices c). \<exists>d. devs s' dev = Some d \<and> dev_ctx d = Some ctx \<and>
            (\<forall>chn\<in>set (dev_channels d). \<exists>ch. chns s' chn = Some ch \<and> chn_dev ch = Some dev))))
   \<and> (create_channel_props chn ps s = Inr s' \<and> chns s chn = Some c0 \<longrightarrow>
        (\<exists>c'. chns s' chn = Some c' \<and> chn_dev c' = chn_dev c0))
   \<and> (create_channel_children chn ks s = Inr (r, s') \<and> chns s chn = Some c0 \<longrightarrow>
        (\<exists>c'. chns s' chn = Some c' \<and> chn_dev c' = chn_dev c0))
   \<and> (create_device_props dev0 ps s = Inr s' \<and> devs s dev0 = Some d0 \<longrightarrow>
        (\<exists>d'. devs s' dev0 = Some d' \<and> dev_ctx d' = dev_ctx d0))
   \<and> (create_device_children dev0 ks s = Inr (r, s') \<and> devs s dev0 = Some d0 \<longrightarrow>
        (\<exists>d'. devs s' dev0 = Some d' \<and> dev_ctx d' = dev_ctx d0))"
proof (intro conjI impI)
  assume "iio_create_xml_context_helper doc s = Inr (Some ctx, s')"
  from helper_frame [OF this] obtain c where c: "ctxs s' ctx = Some c"
    and own: "owned_devices s' ctx (ctx_devices c)"
    by blast
  have "\<forall>dev\<in>set (ctx_devices c). \<exists>d. devs s' dev = Some d \<and> dev_ctx d = Some ctx \<and>
      (\<forall>chn\<in>set (dev_channels d). \<exists>ch. chns s' chn = Some ch \<and> chn_dev ch = Some dev)"
  proof
    fix dev assume "dev \<in> set (ctx_devices c)"
    with own obtain d where d: "devs s' dev = Some d" "dev_ctx d = Some ctx"
      "owned_channels s' dev (dev_channels d)"
      unfolding owned_devices_def by blast
    from d(3) have "\<forall>chn\<in>set (dev_channels d). \<exists>ch. chns s' chn = Some ch \<and> chn_dev ch = Some dev"
      unfolding owned_channels_def by blast
    with d(1,2) show "\<exists>d. devs s' dev = Some d \<and> dev_ctx d = Some ctx \<and>
      (\<forall>chn\<in>set (dev_channels d). \<exists>ch. chns s' chn = Some ch \<and> chn_dev ch = Some dev)"
      by blast
  qed
  with c show "\<exists>c. ctxs s' ctx = Some c \<and>
         (\<forall>dev\<in>set (ctx_devices c). \<exists>d. devs s' dev = Some d \<and> dev_ctx d = Some ctx \<and>
            (\<forall>chn\<in>set (dev_channels d). \<exists>ch. chns s' chn = Some ch \<and> chn_dev ch = Some dev))"
    by blast
next
  assume "create_channel_props chn ps s = Inr s' \<and> chns s chn = Some c0"
  then show "\<exists>c'. chns s' chn = Some c' \<and> chn_dev c' = chn_dev c0"
    using create_channel_props_frame [of chn ps s s' c0] by blast
next
  assume "create_channel_children chn ks s = Inr (r, s') \<and> chns s chn = Some c0"
  then show "\<exists>c'. chns s' chn = Some c' \<and> chn_dev c' = chn_dev c0"
    using create_channel_children_frame [of chn ks s r s' c0] by blast
next
  assume "create_device_props dev0 ps s = Inr s' \<and> devs s dev0 = Some d0"
  then show "\<exists>d'. devs s' dev0 = Some d' \<and> dev_ctx d' = dev_ctx d0"
    using create_device_props_frame [of dev0 ps s s' d0] by blast
next
  assume "create_device_children dev0 ks s = Inr (r, s') \<and> devs s dev0 = Some d0"
  then show "\<exists>d'. devs s' dev0 = Some d' \<and> dev_ctx d' = dev_ctx d0"
    using create_device_children_ctx [of dev0 ks s r s' d0] by blast
qed

theorem back_references_witness:
  "(\<exists>s' c. iio_create_xml_context_helper scenario_A initial_state = Inr (Some 0, s') \<and>
      ctxs s' 0 = Some c \<and>
      (\<forall>dev\<in>set (ctx_devices c). \<exists>d. devs s' dev = Some d \<and> dev_ctx d = Some 0 \<and>
         (\<forall>chn\<in>set (dev_channels d). \<exists>ch. chns s' chn = Some ch \<and> chn_dev ch = Some dev)))
   \<and> (\<exists>s' c'. create_channel_props 0 [XmlAttr ''id'' (Some ''x'')] owner_state = Inr s' \<and>
        chns s' 0 = Some c' \<and> chn_dev c' = Some 1)
   \<and> (\<exists>s' c'. create_channel_children 0 [scale_attribute] owner_state = Inr (True, s') \<and>
        chns s' 0 = Some c' \<and> chn_dev c' = Some 1)
   \<and> (\<exists>s' d'. create_device_props 1 [XmlAttr ''id'' (Some ''x'')] owner_state = Inr s' \<and>
        devs s' 1 = Some d' \<and> dev_ctx d' = None)
   \<and> (\<exists>s' d'. create_device_children 1 [scale_attribute] owner_state = Inr (True, s') \<and>
        devs s' 1 = Some d' \<and> dev_ctx d' = None)"
proof -
  have wf: "wf_context (xmlDocGetRootElement scenario_A)"
    by (simp add: scenario_A_def wf_context_def wf_device_def wf_channel_def wf_attribute_def
          elems_def props_named_def valued_def)
  have i: "allocs initial_state = []" "brk initial_state = 0"
    by (simp_all add: initial_state_def)
  have own: "chns owner_state 0 = Some owner_channel" "devs owner_state 1 = Some owner_device"
    "allocs owner_state = []" "chn_dev owner_channel = Some 1" "dev_ctx owner_device = None"
    by (simp_all add: owner_state_def initial_state_def owner_channel_def owner_device_def)
  have v: "valued [XmlAttr ''id'' (Some ''x'')]"
    "valued (props_named ''name'' [XmlAttr ''id'' (Some ''x'')])"
    "valued (props_named ''id'' [XmlAttr ''id'' (Some ''x'')])"
    "list_all wf_attribute (elems ''attribute'' [scale_attribute])"
    "list_all wf_channel (elems ''channel'' [scale_attribute])"
    by (simp_all add: valued_def props_named_def elems_def scale_attribute_def wf_attribute_def)
  from helper_run [OF i(1) wf] obtain sa where
    a: "iio_create_xml_context_helper scenario_A initial_state = Inr (Some 0, sa)"
    by (simp add: i)
  from create_channel_props_run [OF own(1,3) v(1)] obtain sb where
    b: "create_channel_props 0 [XmlAttr ''id'' (Some ''x'')] owner_state = Inr sb"
    by simp
  from create_channel_children_run [OF own(1,3) v(4)] obtain sc where
    c: "create_channel_children 0 [scale_attribute] owner_state = Inr (True, sc)"
    by simp
  from create_device_props_run [OF own(2,3) v(2,3)] obtain sd where
    d: "create_device_props 1 [XmlAttr ''id'' (Some ''x'')] owner_state = Inr sd"
    by simp
  from create_device_children_run [OF own(2,3) v(5,4)] obtain se where
    e: "create_device_children 1 [scale_attribute] owner_state = Inr (True, se)"
    by simp
  show ?thesis
    using back_references [of scenario_A initial_state 0 sa 0 "[XmlAttr ''id'' (Some ''x'')]"
        owner_channel "[scale_attribute]" True 1 owner_device] a
      back_references [of scenario_A owner_state 0 sb 0 "[XmlAttr ''id'' (Some ''x'')]"
        owner_channel "[scale_attribute]" True 1 owner_device] b
      back_references [of scenario_A owner_state 0 sc 0 "[XmlAttr ''id'' (Some ''x'')]"
        owner_channel "[scale_attribute]" True 1 owner_device] c
      back_references [of scenario_A owner_state 0 sd 0 "[XmlAttr ''id'' (Some ''x'')]"
        owner_channel "[scale_attribute]" True 1 owner_device] d
      back_references [of scenario_A owner_state 0 se 0 "[XmlAttr ''id'' (Some ''x'')]"
        owner_channel "[scale_attribute]" True 1 owner_device] e
      own
    by (simp del: One_nat_def)
qed

text \<open>
  C2. Round trip. For a well-formed document and a run in which no allocation fails, the
  context builder returns a context that matches the root: its device list pairs off, one
  to one and in order, with the \<open>device\<close> children of the root (N devices); each
  device carries the \<open>id\<close> of its node, its attribute names pair off in order with the
  \<open>attribute\<close> children of the node (K attributes), and its channel list pairs off in
  order with the \<open>channel\<close> children (M channels); each channel carries the \<open>id\<close>
  of its node and its attribute names pair off in order with the \<open>attribute\<close>
  children of the channel node (J attributes).
\<close>

theorem round_trip_structure:
  assumes "wf_context (xmlDocGetRootElement doc)" and "allocs s = []"
  shows "\<exists>s'. iio_create_xml_context_helper doc s = Inr (Some (brk s), s') \<and>
           context_matches s' (brk s) (xmlDocGetRootElement doc)"
  using helper_run [OF assms(2,1)] put_context_matches [OF assms(1)]
  by simp

theorem round_trip_structure_witness:
  "\<exists>s'. iio_create_xml_context_helper scenario_A initial_state = Inr (Some 0, s') \<and>
      context_matches s' 0 (xmlDocGetRootElement scenario_A) \<and>
      map_option ctx_devices (ctxs s' 0) = Some [1] \<and>
      map_option dev_id (devs s' 1) = Some (Some ''dev0'') \<and>
      map_option dev_attrs (devs s' 1) = Some [''calibbias''] \<and>
      map_option dev_channels (devs s' 1) = Some [2] \<and>
      map_option chn_id (chns s' 2) = Some (Some ''voltage0'') \<and>
      map_option is_output (chns s' 2) = Some True \<and>
      map_option chn_attrs (chns s' 2) = Some [''scale'']"
proof -
  have wf: "wf_context (xmlDocGetRootElement scenario_A)"
    by (simp add: scenario_A_def wf_context_def wf_device_def wf_channel_def wf_attribute_def
          elems_def props_named_def valued_def)
  have i: "allocs initial_state = []" "brk initial_state = 0"
    by (simp_all add: initial_state_def)
  from round_trip_structure [OF wf i(1)] obtain s' where
    run: "iio_create_xml_context_helper scenario_A initial_state = Inr (Some 0, s')"
    and m: "context_matches s' 0 (xmlDocGetRootElement scenario_A)"
    by (auto simp: i)
  have s': "s' = (put_context (xmlDocGetRootElement scenario_A) initial_state)
      \<lparr>trace := trace initial_state
         @ ctx_children_warnings (children (xmlDocGetRootElement scenario_A))\<rparr>"
    using run helper_run [OF i(1) wf] by simp
  have "map_option ctx_devices (ctxs s' 0) = Some [1]"
    by (simp add: s' put_context_def i scenario_A_def elems_def)
  moreover have "map_option dev_id (devs s' 1) = Some (Some ''dev0'')"
    "map_option dev_attrs (devs s' 1) = Some [''calibbias'']"
    "map_option dev_channels (devs s' 1) = Some [2]"
    by (simp_all add: s' put_context_def put_device_def i scenario_A_def elems_def
          built_device_fields last_value_def props_named_def)
  moreover have "map_option chn_id (chns s' 2) = Some (Some ''voltage0'')"
    "map_option is_output (chns s' 2) = Some True"
    "map_option chn_attrs (chns s' 2) = Some [''scale'']"
    by (simp_all add: s' put_context_def put_device_def i scenario_A_def elems_def
          built_channel_fields last_value_def props_named_def says_output_def)
  ultimately show ?thesis using run m by simp
qed

end
